theory Spec2Isabelle
  imports Main
begin

section \<open>Values shared by the translation units\<close>

text \<open>
  A \<^verbatim>\<open>void *\<close> is an address; address 0 is the null pointer. A function pointer is an
  address as well: the code it points to is looked up in a table that the operations
  take as a parameter. \<^verbatim>\<open>NftResult\<close> is tested with \<^verbatim>\<open>!\<close> throughout the
  sources, so it is a truth value: \<^verbatim>\<open>NFT_SUCCESS\<close> is \<open>True\<close>,
  \<^verbatim>\<open>NFT_FAILURE\<close> is \<open>False\<close>. Class names are C strings: a \<open>string\<close> holds
  the characters before the terminating NUL.
\<close>

type_synonym ptr = nat

abbreviation (input) NULL :: ptr where
  "NULL \<equiv> 0"

text \<open>
  What a run can end in instead of returning: reading or writing a field through a null
  structure pointer, and calling through a null function pointer.
\<close>

datatype fault = NullDereference | NullFunctionCall

text \<open>\<^verbatim>\<open>#define NFT_PREFS_MAX_CLASSNAME 64\<close> (niftyprefs.h).\<close>

definition NFT_PREFS_MAX_CLASSNAME :: nat where
  "NFT_PREFS_MAX_CLASSNAME = 64"

text \<open>
  \<^verbatim>\<open>strncpy(n->name, className, NFT_PREFS_MAX_CLASSNAME)\<close> into a field of
  \<^verbatim>\<open>NFT_PREFS_MAX_CLASSNAME+1\<close> bytes of a zeroed slot: the first 64 bytes of the
  field are overwritten (by the name and NUL padding, or by the first 64 characters of a
  longer name) and byte 64 stays NUL, so the field afterwards reads as the first 64
  characters of the name.
\<close>

definition strncpy_classname :: "string \<Rightarrow> string" where
  "strncpy_classname className = take NFT_PREFS_MAX_CLASSNAME className"

text \<open>
  The tree node of the external XML library, as far as the core builds and walks it:
  a tag, attributes and children.
\<close>

datatype PrefsNode =
  PrefsNode (node_name: string) (node_props: "(string \<times> string) list") (node_children: "PrefsNode list")

text \<open>
  The outcomes of the calls that can fail for lack of memory are inputs of the model:
  whether the slot array can grow, whether a new slot array can be initialised, and
  whether \<^verbatim>\<open>xmlNewNode\<close> returns a node.
\<close>

record Env =
  realloc_ok :: bool
  init_ok :: bool
  newnode_ok :: bool

text \<open>
  The loops of the form \<^verbatim>\<open>for(i=0; i < n; i++) if(test(a[i])) return &a[i];\<close>:
  the index of the first element that passes the test.
\<close>

fun first_index :: "('a \<Rightarrow> bool) \<Rightarrow> 'a list \<Rightarrow> nat option" where
  "first_index P [] = None"
| "first_index P (x # xs) = (if P x then Some 0 else map_option Suc (first_index P xs))"

text \<open>
  An ordered comparison \<^verbatim>\<open>ptr < 0\<close> of a pointer: addresses are unsigned, so the
  test compares the address with zero. A found class is the address of its slot, which
  is not null.
\<close>

definition addr_of :: "nat option \<Rightarrow> nat" where
  "addr_of c = (case c of None \<Rightarrow> 0 | Some k \<Rightarrow> Suc k)"

definition ptr_lt_zero :: "nat option \<Rightarrow> bool" where
  "ptr_lt_zero c = (addr_of c < 0)"

section \<open>The slot array\<close>

text \<open>Modelled from the spec: the slot array behind the functions \<^verbatim>\<open>nft_array_*\<close>,
  which class.c and obj.c call and which are not among the sources (section 4.1 of the
  specification). A slot is free or occupied and carries a payload; a free slot's
  payload is zero.\<close>

datatype 'a NftElement = NftElement (occupied: bool) (payload: 'a)

type_synonym 'a NftArray = "'a NftElement list"

text \<open>Modelled from the spec: the fixed growth block of the slot array (64 slots).\<close>

definition NFT_ARRAY_INC :: nat where
  "NFT_ARRAY_INC = 64"

text \<open>Modelled from the spec: \<^verbatim>\<open>nft_array_init\<close>, absent from the sources; a freshly
  initialised array is empty, and initialisation can fail.\<close>

definition nft_array_init :: "bool \<Rightarrow> 'a NftArray option" where
  "nft_array_init ok = (if ok then Some [] else None)"

text \<open>Modelled from the spec: \<^verbatim>\<open>nft_array_deinit\<close>, absent from the sources; the
  storage is released.\<close>

definition nft_array_deinit :: "'a NftArray \<Rightarrow> 'a NftArray" where
  "nft_array_deinit a = []"

text \<open>Modelled from the spec: \<^verbatim>\<open>nft_array_slot_alloc\<close>, absent from the sources;
  it scans for the first free slot; if none exists it grows the storage by one block of
  zeroed slots and takes the first new one; it fails only when the growth fails. The
  first argument is the zero payload of the element type.\<close>

definition nft_array_slot_alloc :: "'a \<Rightarrow> bool \<Rightarrow> 'a NftArray \<Rightarrow> ('a NftArray \<times> nat) option" where
  "nft_array_slot_alloc z ok a =
     (case first_index (\<lambda>e. \<not> occupied e) a of
        Some i \<Rightarrow> Some (a[i := NftElement True (payload (a ! i))], i)
      | None \<Rightarrow>
          if ok
          then Some ((a @ replicate NFT_ARRAY_INC (NftElement False z))[length a := NftElement True z],
                     length a)
          else None)"

text \<open>Modelled from the spec: \<^verbatim>\<open>nft_array_slot_free\<close>, absent from the sources;
  it zeroes the slot's payload and marks the slot free; an index outside the capacity
  changes nothing.\<close>

definition nft_array_slot_free :: "'a \<Rightarrow> 'a NftArray \<Rightarrow> nat \<Rightarrow> 'a NftArray" where
  "nft_array_slot_free z a s = (if s < length a then a[s := NftElement False z] else a)"

text \<open>Modelled from the spec: \<^verbatim>\<open>nft_array_get_element\<close>, absent from the sources;
  bounds-checked, null for an index outside the capacity.\<close>

definition nft_array_get_element :: "'a NftArray \<Rightarrow> nat \<Rightarrow> 'a option" where
  "nft_array_get_element a s = (if s < length a then Some (payload (a ! s)) else None)"

text \<open>A write through the element pointer that
  \<^verbatim>\<open>nft_array_get_element\<close> returned.\<close>

definition nft_array_store :: "'a NftArray \<Rightarrow> nat \<Rightarrow> ('a \<Rightarrow> 'a) \<Rightarrow> 'a NftArray" where
  "nft_array_store a s f =
     (if s < length a then a[s := NftElement (occupied (a ! s)) (f (payload (a ! s)))] else a)"

text \<open>Modelled from the spec: \<^verbatim>\<open>nft_array_find_slot\<close>, absent from the sources;
  a linear scan in index order over the occupied slots for the first element that the
  finder accepts.\<close>

definition nft_array_find_slot :: "('a \<Rightarrow> bool) \<Rightarrow> 'a NftArray \<Rightarrow> nat option" where
  "nft_array_find_slot finder a = first_index (\<lambda>e. occupied e \<and> finder (payload e)) a"

text \<open>Modelled from the spec: \<^verbatim>\<open>nft_array_foreach_element\<close>, absent from the
  sources; it visits the occupied slots in index order. The visitor works on the whole
  state \<open>s\<close>, in which \<open>arr s\<close> is the array that is walked, since the visitor of
  class.c frees slots of that array while it is walked.\<close>

definition nft_array_foreach_element :: "('s \<Rightarrow> 'a NftArray) \<Rightarrow> (nat \<Rightarrow> 's \<Rightarrow> 's) \<Rightarrow> 's \<Rightarrow> 's" where
  "nft_array_foreach_element arr visit s =
     fold (\<lambda>i t. if i < length (arr t) \<and> occupied (arr t ! i) then visit i t else t)
          [0..<length (arr s)] s"

section \<open>obj.c and class.c: the registry on slot arrays\<close>

text \<open>
  \<^verbatim>\<open>struct _NftPrefsObj\<close> (obj.c) and \<^verbatim>\<open>struct _NftPrefsClass\<close> (class.c). A
  pointer to a class is the index of its slot in the class array; \<open>None\<close> is the null
  pointer. The context pointer, the class names and the nodes that the functions get are
  valid pointers, so the guards \<^verbatim>\<open>if(!p || !className)\<close> are not branches of the
  model; the object pointer can be null. \<^verbatim>\<open>NFT_LOG_NULL(x)\<close> logs and returns \<open>x\<close>.

  niftyprefs.c defines functions of the same names a second time, on arrays that the
  context itself would hold. They read the members \<^verbatim>\<open>p->objects\<close>,
  \<^verbatim>\<open>p->obj_count\<close>, \<^verbatim>\<open>p->obj_list_length\<close> and \<^verbatim>\<open>className\<close>,
  which the structures declared in that file do not have, so that file is not a
  translation unit of the library next to class.c and obj.c, and it is not embedded.
\<close>

record NftPrefsObj =
  object :: ptr
  klass :: "nat option"
  slot :: nat

record NftPrefsClass =
  name :: string
  toObj :: ptr
  fromObj :: ptr
  objects :: "NftPrefsObj NftArray"

text \<open>Modelled from the spec: the context of prefs.c, absent from the sources; it owns
  the class registry (returned by \<^verbatim>\<open>prefs_classes\<close>) and the transient document
  (returned by \<^verbatim>\<open>prefs_doc\<close>).\<close>

record NftPrefs =
  doc :: ptr
  classes :: "NftPrefsClass NftArray"

definition zeroed_obj :: NftPrefsObj where
  "zeroed_obj = \<lparr>object = NULL, klass = None, slot = 0\<rparr>"

definition zeroed_class :: NftPrefsClass where
  "zeroed_class = \<lparr>name = [], toObj = NULL, fromObj = NULL, objects = []\<rparr>"

text \<open>
  The callbacks of a class. \<^verbatim>\<open>NftPrefsToObjFunc(p, newObj, node, userptr)\<close> gets the
  context, the current content of \<^verbatim>\<open>*newObj\<close>, the node and the user pointer, and
  yields its result, the final content of \<^verbatim>\<open>*newObj\<close> and the context as it left
  it. \<^verbatim>\<open>NftPrefsFromObjFunc(p, newNode, obj, userptr)\<close> yields its result, the node
  as it left it and the context as it left it.
\<close>

type_synonym NftPrefsToObjFunc = "NftPrefs \<Rightarrow> ptr \<Rightarrow> PrefsNode \<Rightarrow> ptr \<Rightarrow> bool \<times> ptr \<times> NftPrefs"

type_synonym NftPrefsFromObjFunc = "NftPrefs \<Rightarrow> PrefsNode \<Rightarrow> ptr \<Rightarrow> ptr \<Rightarrow> bool \<times> PrefsNode \<times> NftPrefs"

subsection \<open>class.c\<close>

text \<open>\<^verbatim>\<open>_class_find_by_name\<close>: the finder for
  \<^verbatim>\<open>nft_array_find_slot\<close>.\<close>

definition class_find_by_name_finder :: "NftPrefsClass \<Rightarrow> string \<Rightarrow> bool" where
  "class_find_by_name_finder c criterion = (name c = criterion)"

definition prefs_class_init_array :: "Env \<Rightarrow> NftPrefsClass NftArray option" where
  "prefs_class_init_array env = nft_array_init (init_ok env)"

definition prefs_obj_init_array :: "Env \<Rightarrow> NftPrefsObj NftArray option" where
  "prefs_obj_init_array env = nft_array_init (init_ok env)"

text \<open>\<^verbatim>\<open>prefs_class_objects\<close>: null for a null class, else the class's
  object array.\<close>

definition prefs_class_objects :: "NftPrefsClass NftArray \<Rightarrow> nat option \<Rightarrow> NftPrefsObj NftArray option" where
  "prefs_class_objects cs c =
     (case c of
        None \<Rightarrow> None
      | Some k \<Rightarrow> if k < length cs then Some (objects (payload (cs ! k))) else None)"

text \<open>A change of the object array that \<^verbatim>\<open>prefs_class_objects\<close> points
  to.\<close>

definition update_objects ::
  "NftPrefsClass NftArray \<Rightarrow> nat \<Rightarrow> (NftPrefsObj NftArray \<Rightarrow> NftPrefsObj NftArray) \<Rightarrow> NftPrefsClass NftArray" where
  "update_objects cs k f = nft_array_store cs k (\<lambda>c. c\<lparr>objects := f (objects c)\<rparr>)"

definition prefs_class_find_by_name :: "NftPrefsClass NftArray \<Rightarrow> string \<Rightarrow> nat option" where
  "prefs_class_find_by_name cs n =
     (case nft_array_find_slot (\<lambda>c. class_find_by_name_finder c n) cs of
        None \<Rightarrow> None
      | Some s \<Rightarrow> (case nft_array_get_element cs s of None \<Rightarrow> None | Some e \<Rightarrow> Some s))"

text \<open>
  \<^verbatim>\<open>prefs_obj_free\<close> (obj.c) on the element at index \<open>i\<close> of the object array of
  class \<open>k\<close>: it frees slot \<^verbatim>\<open>obj->slot\<close> of the object array of \<^verbatim>\<open>obj->klass\<close>,
  then clears \<^verbatim>\<open>obj->object\<close> and \<^verbatim>\<open>obj->klass\<close>.
\<close>

definition prefs_obj_free :: "NftPrefsClass NftArray \<Rightarrow> (nat \<times> nat) option \<Rightarrow> NftPrefsClass NftArray" where
  "prefs_obj_free cs obj =
     (case obj of
        None \<Rightarrow> cs
      | Some (k, i) \<Rightarrow>
          (case prefs_class_objects cs (Some k) of
             None \<Rightarrow> cs
           | Some a \<Rightarrow>
               (case nft_array_get_element a i of
                  None \<Rightarrow> cs
                | Some e \<Rightarrow>
                    (let cs1 = (case klass e of
                                  None \<Rightarrow> cs
                                | Some k' \<Rightarrow> update_objects cs k' (\<lambda>b. nft_array_slot_free zeroed_obj b (slot e)))
                     in update_objects cs1 k
                          (\<lambda>b. nft_array_store b i (\<lambda>x. x\<lparr>object := NULL, klass := None\<rparr>))))))"

text \<open>
  \<^verbatim>\<open>prefs_class_free\<close>: \<^verbatim>\<open>_obj_free\<close> on every occupied element of the class's
  object array, counting them; the array is released; the name and the callbacks are
  cleared. The class's slot in the class array is not touched otherwise. The count is
  only logged.
\<close>

definition obj_free_visitor :: "nat \<Rightarrow> nat \<Rightarrow> NftPrefsClass NftArray \<times> nat \<Rightarrow> NftPrefsClass NftArray \<times> nat" where
  "obj_free_visitor k i st = (prefs_obj_free (fst st) (Some (k, i)), snd st + 1)"

definition prefs_class_free :: "NftPrefsClass NftArray \<Rightarrow> nat option \<Rightarrow> NftPrefsClass NftArray" where
  "prefs_class_free cs klass_ptr =
     (case klass_ptr of
        None \<Rightarrow> cs
      | Some k \<Rightarrow>
          (let st = nft_array_foreach_element
                      (\<lambda>t. case prefs_class_objects (fst t) (Some k) of None \<Rightarrow> [] | Some a \<Rightarrow> a)
                      (obj_free_visitor k) (cs, 0);
               cs1 = update_objects (fst st) k nft_array_deinit
           in nft_array_store cs1 k (\<lambda>c. c\<lparr>name := [], fromObj := NULL, toObj := NULL\<rparr>)))"

definition prefs_class_fromObj :: "NftPrefsClass NftArray \<Rightarrow> nat option \<Rightarrow> fault + ptr" where
  "prefs_class_fromObj cs c =
     (case c of
        None \<Rightarrow> Inl NullDereference
      | Some k \<Rightarrow> (case nft_array_get_element cs k of None \<Rightarrow> Inl NullDereference | Some e \<Rightarrow> Inr (fromObj e)))"

definition prefs_class_toObj :: "NftPrefsClass NftArray \<Rightarrow> nat option \<Rightarrow> fault + ptr" where
  "prefs_class_toObj cs c =
     (case c of
        None \<Rightarrow> Inl NullDereference
      | Some k \<Rightarrow> (case nft_array_get_element cs k of None \<Rightarrow> Inl NullDereference | Some e \<Rightarrow> Inr (toObj e)))"

text \<open>
  \<^verbatim>\<open>nft_prefs_class_register\<close> (class.c): it fails for an empty name, for a name that
  the lookup finds, when no slot can be allocated, and, after releasing the slot, when
  the element cannot be fetched or the object array cannot be initialised.
\<close>

definition nft_prefs_class_register :: "Env \<Rightarrow> NftPrefs \<Rightarrow> string \<Rightarrow> ptr \<Rightarrow> ptr \<Rightarrow> bool \<times> NftPrefs" where
  "nft_prefs_class_register env p className toObjF fromObjF =
     (if length className = 0 then (False, p)
      else if prefs_class_find_by_name (classes p) className \<noteq> None then (False, p)
      else
        (case nft_array_slot_alloc zeroed_class (realloc_ok env) (classes p) of
           None \<Rightarrow> (False, p)
         | Some (cs1, s) \<Rightarrow>
             (case nft_array_get_element cs1 s of
                None \<Rightarrow> (False, p\<lparr>classes := nft_array_slot_free zeroed_class cs1 s\<rparr>)
              | Some n \<Rightarrow>
                  (let cs2 = nft_array_store cs1 s
                               (\<lambda>c. c\<lparr>name := strncpy_classname className, toObj := toObjF, fromObj := fromObjF\<rparr>)
                   in case prefs_obj_init_array env of
                        None \<Rightarrow> (False, p\<lparr>classes := nft_array_slot_free zeroed_class cs2 s\<rparr>)
                      | Some a \<Rightarrow> (True, p\<lparr>classes := update_objects cs2 s (\<lambda>b. a)\<rparr>)))))"

definition nft_prefs_class_unregister :: "NftPrefs \<Rightarrow> string \<Rightarrow> NftPrefs" where
  "nft_prefs_class_unregister p className =
     (case prefs_class_find_by_name (classes p) className of
        None \<Rightarrow> p
      | Some k \<Rightarrow> p\<lparr>classes := prefs_class_free (classes p) (Some k)\<rparr>)"

subsection \<open>obj.c\<close>

text \<open>
  \<^verbatim>\<open>_obj_find_by_ptr\<close>: the finder for \<^verbatim>\<open>nft_array_find_slot\<close>. For a null
  criterion it returns \<^verbatim>\<open>-1\<close>, which is true as a \<^verbatim>\<open>bool\<close>.
\<close>

definition obj_find_by_ptr_finder :: "NftPrefsObj \<Rightarrow> ptr \<Rightarrow> bool" where
  "obj_find_by_ptr_finder e criterion = (if criterion = NULL then True else object e = criterion)"

text \<open>
  \<^verbatim>\<open>prefs_obj_find_by_ptr\<close>. The branch that reports "not found" is taken when
  \<^verbatim>\<open>nft_array_find_slot\<close> returns true. When the search fails, the local variable
  \<^verbatim>\<open>slot\<close> has not been written by this function; \<open>junk\<close> is the value it holds.
\<close>

definition prefs_obj_find_by_ptr :: "nat \<Rightarrow> NftPrefsObj NftArray option \<Rightarrow> ptr \<Rightarrow> nat option" where
  "prefs_obj_find_by_ptr junk array obj =
     (case array of
        None \<Rightarrow> None
      | Some a \<Rightarrow>
          (case nft_array_find_slot (\<lambda>e. obj_find_by_ptr_finder e obj) a of
             Some s \<Rightarrow> None
           | None \<Rightarrow> (case nft_array_get_element a junk of None \<Rightarrow> None | Some e \<Rightarrow> Some junk)))"

definition nft_prefs_obj_register :: "Env \<Rightarrow> NftPrefs \<Rightarrow> string \<Rightarrow> ptr \<Rightarrow> bool \<times> NftPrefs" where
  "nft_prefs_obj_register env p className obj =
     (if obj = NULL then (False, p)
      else
        (case prefs_class_find_by_name (classes p) className of
           None \<Rightarrow> (False, p)
         | Some c \<Rightarrow>
             (case prefs_class_objects (classes p) (Some c) of
                None \<Rightarrow> (False, p)
              | Some a \<Rightarrow>
                  (case nft_array_slot_alloc zeroed_obj (realloc_ok env) a of
                     None \<Rightarrow> (False, p)
                   | Some (a1, s) \<Rightarrow>
                       (case nft_array_get_element a1 s of
                          None \<Rightarrow>
                            (False, p\<lparr>classes := update_objects (classes p) c
                                                   (\<lambda>b. nft_array_slot_free zeroed_obj a1 s)\<rparr>)
                        | Some e \<Rightarrow>
                            (True, p\<lparr>classes := update_objects (classes p) c
                                       (\<lambda>b. nft_array_store a1 s
                                               (\<lambda>x. x\<lparr>object := obj, klass := Some c, slot := s\<rparr>))\<rparr>))))))"

text \<open>
  \<^verbatim>\<open>nft_prefs_obj_unregister\<close>. The class lookup is tested with \<^verbatim>\<open>< 0\<close>; for a
  class that is not found \<^verbatim>\<open>prefs_class_objects\<close> returns null, and so does
  \<^verbatim>\<open>prefs_obj_find_by_ptr\<close>.
\<close>

definition nft_prefs_obj_unregister :: "nat \<Rightarrow> NftPrefs \<Rightarrow> string \<Rightarrow> ptr \<Rightarrow> NftPrefs" where
  "nft_prefs_obj_unregister junk p className obj =
     (if obj = NULL then p
      else
        (let c = prefs_class_find_by_name (classes p) className
         in if ptr_lt_zero c then p
            else
              (case prefs_obj_find_by_ptr junk (prefs_class_objects (classes p) c) obj of
                 None \<Rightarrow> p
               | Some i \<Rightarrow>
                   (case c of
                      None \<Rightarrow> p
                    | Some k \<Rightarrow> p\<lparr>classes := prefs_obj_free (classes p) (Some (k, i))\<rparr>))))"

text \<open>\<^verbatim>\<open>xmlNewNode(NULL, className)\<close> followed by
  \<^verbatim>\<open>xmlNodeSetName\<close>.\<close>

definition xmlNewNode :: "Env \<Rightarrow> string \<Rightarrow> PrefsNode option" where
  "xmlNewNode env n = (if newnode_ok env then Some (PrefsNode n [] []) else None)"

definition xmlNodeSetName :: "PrefsNode \<Rightarrow> string \<Rightarrow> PrefsNode" where
  "xmlNodeSetName node n = PrefsNode n (node_props node) (node_children node)"

text \<open>
  \<^verbatim>\<open>nft_prefs_obj_to_node\<close>. The result is the returned node (\<open>None\<close> for a null
  return) and the context as the callback left it, or a fault.
\<close>

definition nft_prefs_obj_to_node ::
  "Env \<Rightarrow> (ptr \<Rightarrow> NftPrefsFromObjFunc) \<Rightarrow> NftPrefs \<Rightarrow> string \<Rightarrow> ptr \<Rightarrow> ptr \<Rightarrow> fault + (PrefsNode option \<times> NftPrefs)" where
  "nft_prefs_obj_to_node env code p className obj userptr =
     (if obj = NULL then Inr (None, p)
      else
        (let c = prefs_class_find_by_name (classes p) className
         in if ptr_lt_zero c then Inr (None, p)
            else
              (case xmlNewNode env className of
                 None \<Rightarrow> Inr (None, p)
               | Some node0 \<Rightarrow>
                   (let node = xmlNodeSetName node0 className
                    in case prefs_class_fromObj (classes p) c of
                         Inl f \<Rightarrow> Inl f
                       | Inr fn \<Rightarrow>
                           if fn = NULL then Inl NullFunctionCall
                           else
                             (case code fn p node obj userptr of
                                (ok, node1, p1) \<Rightarrow>
                                  if \<not> ok then Inr (None, p1) else Inr (Some node1, p1))))))"

text \<open>
  \<^verbatim>\<open>nft_prefs_obj_from_node\<close>. A failing callback is logged and the function goes on:
  it registers whatever the callback left in \<^verbatim>\<open>result\<close> and returns it. The result
  of the registration is logged only.
\<close>

definition nft_prefs_obj_from_node ::
  "Env \<Rightarrow> (ptr \<Rightarrow> NftPrefsToObjFunc) \<Rightarrow> NftPrefs \<Rightarrow> PrefsNode \<Rightarrow> ptr \<Rightarrow> fault + (ptr \<times> NftPrefs)" where
  "nft_prefs_obj_from_node env code p n userptr =
     (let c = prefs_class_find_by_name (classes p) (node_name n)
      in if ptr_lt_zero c then Inr (NULL, p)
         else
           (case prefs_class_toObj (classes p) c of
              Inl f \<Rightarrow> Inl f
            | Inr fn \<Rightarrow>
                if fn = NULL then Inl NullFunctionCall
                else
                  (case code fn p NULL n userptr of
                     (ok, result, p1) \<Rightarrow>
                       Inr (result, snd (nft_prefs_obj_register env p1 (node_name n) result)))))"

text \<open>Modelled from the spec: the context right after initialisation (prefs.c is not
  among the sources); its class registry is a freshly initialised, empty slot array.\<close>

definition prefs_init :: NftPrefs where
  "prefs_init = \<lparr>doc = NULL, classes = []\<rparr>"

section \<open>Callers, predicates and concrete inputs of the properties\<close>

text \<open>Every allocation succeeds.\<close>

definition env_ok :: Env where
  "env_ok = \<lparr>realloc_ok = True, init_ok = True, newnode_ok = True\<rparr>"

text \<open>The slot array can grow, but a new slot array cannot be initialised.\<close>

definition env_init_fails :: Env where
  "env_init_fails = \<lparr>realloc_ok = True, init_ok = False, newnode_ok = True\<rparr>"

text \<open>A context with the class "person", registered as tests/prefs-to-obj.c registers it: with
  a to-object callback and a null from-object callback.\<close>

definition ctx_person :: NftPrefs where
  "ctx_person = snd (nft_prefs_class_register env_ok prefs_init ''person'' 1 NULL)"

text \<open>The same context with the object at address 7 registered under "person".\<close>

definition ctx_person_obj :: NftPrefs where
  "ctx_person_obj = snd (nft_prefs_obj_register env_ok ctx_person ''person'' 7)"

text \<open>A context whose class "person" has both callbacks.\<close>

definition ctx_snapshot :: NftPrefs where
  "ctx_snapshot = snd (nft_prefs_class_register env_ok prefs_init ''person'' 1 2)"

text \<open>A to-object callback that stores the address 7 in \<^verbatim>\<open>*newObj\<close> and
  then returns \<^verbatim>\<open>NFT_FAILURE\<close>.\<close>

definition failing_toObj :: "ptr \<Rightarrow> NftPrefsToObjFunc" where
  "failing_toObj fn p newObj node userptr = (False, 7, p)"

text \<open>A from-object callback that sets one attribute on the node and fails for the object at
  address 13 only.\<close>

definition naming_fromObj :: "ptr \<Rightarrow> NftPrefsFromObjFunc" where
  "naming_fromObj fn p node obj userptr =
     (obj \<noteq> 13, PrefsNode (node_name node) [(''name'', ''Bob'')] (node_children node), p)"

text \<open>What the first three class slots hold: occupancy, name, and occupancy and object of the
  first two object slots.\<close>

definition slot_summary :: "NftPrefs \<Rightarrow> (bool \<times> string \<times> (bool \<times> ptr) list) list" where
  "slot_summary p =
     map (\<lambda>e. (occupied e, name (payload e),
                map (\<lambda>x. (occupied x, object (payload x))) (take 2 (objects (payload e)))))
         (take 3 (classes p))"

text \<open>Every stored class name fits its field \<^verbatim>\<open>char
  name[NFT_PREFS_MAX_CLASSNAME+1]\<close>.\<close>

definition names_fit :: "NftPrefs \<Rightarrow> bool" where
  "names_fit p = (\<forall>e \<in> set (classes p). length (name (payload e)) \<le> NFT_PREFS_MAX_CLASSNAME)"

text \<open>Two names of 65 characters that differ in the last one.\<close>

definition long_name_x :: string where
  "long_name_x = replicate 64 (CHR ''a'') @ ''x''"

definition long_name_y :: string where
  "long_name_y = replicate 64 (CHR ''a'') @ ''y''"

text \<open>A context with the classes "person" (object 7) and "people" (object 9).\<close>

definition ctx_two_classes :: NftPrefs where
  "ctx_two_classes =
     snd (nft_prefs_obj_register env_ok
            (snd (nft_prefs_class_register env_ok ctx_person_obj ''people'' 3 NULL)) ''people'' 9)"

text \<open>
  The handles of the object array \<open>a\<close> of the class in slot \<open>k\<close> are as
  \<^verbatim>\<open>nft_prefs_obj_register\<close> (obj.c) writes them: every occupied element points back to
  class \<open>k\<close> and to its own slot.
\<close>

definition handles_wf :: "NftPrefsObj NftArray \<Rightarrow> nat \<Rightarrow> bool" where
  "handles_wf a k =
     (\<forall>i < length a. occupied (a ! i) \<longrightarrow> klass (payload (a ! i)) = Some k \<and> slot (payload (a ! i)) = i)"

text \<open>
  The class array with the object array of the class in slot \<open>k\<close> replaced.
\<close>

definition class_with_objects :: "NftPrefsClass NftArray \<Rightarrow> nat \<Rightarrow> NftPrefsObj NftArray \<Rightarrow> NftPrefsClass NftArray" where
  "class_with_objects cs k a = cs[k := NftElement (occupied (cs ! k)) ((payload (cs ! k))\<lparr>objects := a\<rparr>)]"

text \<open>
  A caller of the slot array that allocates one slot per entry of \<open>oks\<close>; the entry
  says whether the storage can grow at that call. It stops at the first allocation that
  fails and returns the array with the slot indices in the order of the calls.
\<close>

fun alloc_slots :: "'a \<Rightarrow> bool list \<Rightarrow> 'a NftArray \<Rightarrow> ('a NftArray \<times> nat list) option" where
  "alloc_slots z [] a = Some (a, [])"
| "alloc_slots z (ok # oks) a =
     (case nft_array_slot_alloc z ok a of
        None \<Rightarrow> None
      | Some (a1, s) \<Rightarrow>
          (case alloc_slots z oks a1 of
             None \<Rightarrow> None
           | Some (a2, ss) \<Rightarrow> Some (a2, s # ss)))"

text \<open>A caller that frees a list of slots, one call of \<^verbatim>\<open>nft_array_slot_free\<close> each.\<close>

fun free_slots :: "'a \<Rightarrow> 'a NftArray \<Rightarrow> nat list \<Rightarrow> 'a NftArray" where
  "free_slots z a [] = a"
| "free_slots z a (s # ss) = free_slots z (nft_array_slot_free z a s) ss"

text \<open>
  The life of a slot array between its initialisation and its release: any sequence of
  allocations (each with the outcome of a growth of the storage, were it needed) and of
  releases of slots. A failed allocation leaves the array as it was.
\<close>

datatype slot_op = Alloc bool | Free nat

fun run_slot_ops :: "'a \<Rightarrow> slot_op list \<Rightarrow> 'a NftArray \<Rightarrow> 'a NftArray" where
  "run_slot_ops z [] a = a"
| "run_slot_ops z (Alloc ok # ops) a =
     run_slot_ops z ops (case nft_array_slot_alloc z ok a of None \<Rightarrow> a | Some (a1, s) \<Rightarrow> a1)"
| "run_slot_ops z (Free s # ops) a = run_slot_ops z ops (nft_array_slot_free z a s)"

text \<open>The number of free slots.\<close>

definition free_slot_count :: "'a NftArray \<Rightarrow> nat" where
  "free_slot_count a = length (filter (\<lambda>e. \<not> occupied e) a)"

text \<open>An object array after 64 allocations into the freshly initialised array.\<close>

definition slots_full :: "NftPrefsObj NftArray" where
  "slots_full =
     (case alloc_slots zeroed_obj (replicate 64 True) [] of
        Some r \<Rightarrow> fst r
      | None \<Rightarrow> [])"

text \<open>\<^verbatim>\<open>xmlNewNode\<close> returns null; the other allocations succeed.\<close>

definition env_no_node :: Env where
  "env_no_node = \<lparr>realloc_ok = True, init_ok = True, newnode_ok = False\<rparr>"

section \<open>Properties\<close>


lemma first_index_None: "first_index P xs = None \<longleftrightarrow> (\<forall>x \<in> set xs. \<not> P x)"
  by (induction xs) auto


lemma first_index_Some:
  "first_index P xs = Some i \<longleftrightarrow> i < length xs \<and> P (xs ! i) \<and> (\<forall>j < i. \<not> P (xs ! j))"
proof (induction xs arbitrary: i)
  case Nil
  then show ?case by simp
next
  case (Cons x xs)
  show ?case
  proof (cases "P x")
    case True
    then show ?thesis by (cases i) auto
  next
    case False
    show ?thesis
    proof (cases i)
      case 0
      with False show ?thesis by auto
    next
      case (Suc n)
      with False Cons.IH[of n] show ?thesis
        by (auto simp: less_Suc_eq_0_disj)
    qed
  qed
qed

lemma ptr_lt_zero_False [simp]: "\<not> ptr_lt_zero c"
  by (simp add: ptr_lt_zero_def)

lemma to_node_unknown_class:
  assumes "prefs_class_find_by_name (classes p) className = None" "obj \<noteq> NULL" "newnode_ok env"
  shows "nft_prefs_obj_to_node env code p className obj userptr = Inl NullDereference"
  using assms by (simp add: nft_prefs_obj_to_node_def xmlNewNode_def prefs_class_fromObj_def)

lemma from_node_unknown_class:
  assumes "prefs_class_find_by_name (classes p) (node_name n) = None"
  shows "nft_prefs_obj_from_node env code p n userptr = Inl NullDereference"
  using assms by (simp add: nft_prefs_obj_from_node_def prefs_class_toObj_def)

lemma first_index_less: "first_index P xs = Some i \<Longrightarrow> i < length xs"
  by (simp add: first_index_Some)

lemma find_by_name_first_index:
  "prefs_class_find_by_name cs n = first_index (\<lambda>e. occupied e \<and> name (payload e) = n) cs"
  by (auto simp: prefs_class_find_by_name_def nft_array_find_slot_def nft_array_get_element_def
      class_find_by_name_finder_def dest: first_index_less split: option.splits)

lemma find_by_name_Some:
  "prefs_class_find_by_name cs n = Some k \<longleftrightarrow>
     k < length cs \<and> occupied (cs ! k) \<and> name (payload (cs ! k)) = n \<and>
     (\<forall>j < k. \<not> (occupied (cs ! j) \<and> name (payload (cs ! j)) = n))"
  by (simp add: find_by_name_first_index first_index_Some)

lemma find_by_name_None:
  "prefs_class_find_by_name cs n = None \<longleftrightarrow> (\<forall>e \<in> set cs. \<not> (occupied e \<and> name (payload e) = n))"
  by (simp add: find_by_name_first_index first_index_None)

lemma to_node_null_callback:
  assumes f: "prefs_class_find_by_name (classes p) className = Some k"
    and "fromObj (payload (classes p ! k)) = NULL" "obj \<noteq> NULL" "newnode_ok env"
  shows "nft_prefs_obj_to_node env code p className obj userptr = Inl NullFunctionCall"
proof -
  from f have "k < length (classes p)" by (simp add: find_by_name_Some)
  with assms show ?thesis
    by (simp add: nft_prefs_obj_to_node_def xmlNewNode_def prefs_class_fromObj_def
      nft_array_get_element_def)
qed

lemma to_node_callback:
  assumes f: "prefs_class_find_by_name (classes p) className = Some k"
    and "fromObj (payload (classes p ! k)) \<noteq> NULL" "obj \<noteq> NULL" "newnode_ok env"
  shows "nft_prefs_obj_to_node env code p className obj userptr =
     (case code (fromObj (payload (classes p ! k))) p (PrefsNode className [] []) obj userptr of
        (ok, node1, p1) \<Rightarrow> Inr (if ok then Some node1 else None, p1))"
proof -
  from f have "k < length (classes p)" by (simp add: find_by_name_Some)
  with assms show ?thesis
    by (simp add: nft_prefs_obj_to_node_def xmlNewNode_def prefs_class_fromObj_def
      nft_array_get_element_def xmlNodeSetName_def split: prod.splits)
qed


lemma slot_alloc_free:
  "first_index (\<lambda>e. \<not> occupied e) a = Some i \<Longrightarrow>
   nft_array_slot_alloc z ok a = Some (a[i := NftElement True (payload (a ! i))], i)"
  by (simp add: nft_array_slot_alloc_def)

lemma slot_alloc_grow:
  "first_index (\<lambda>e. \<not> occupied e) a = None \<Longrightarrow> ok \<Longrightarrow>
   nft_array_slot_alloc z ok a =
     Some ((a @ replicate NFT_ARRAY_INC (NftElement False z))[length a := NftElement True z], length a)"
  by (simp add: nft_array_slot_alloc_def)

lemma slot_alloc_ok: "ok \<Longrightarrow> \<exists>a1 s. nft_array_slot_alloc z ok a = Some (a1, s)"
  by (cases "first_index (\<lambda>e. \<not> occupied e) a") (simp_all add: nft_array_slot_alloc_def)

lemma slot_alloc_props:
  assumes "nft_array_slot_alloc z ok a = Some (a1, s)"
  shows "s < length a1" "occupied (a1 ! s)" "length a \<le> length a1"
    "\<And>j. j < length a \<Longrightarrow> j \<noteq> s \<Longrightarrow> a1 ! j = a ! j"
    "s < length a \<Longrightarrow> \<not> occupied (a ! s)"
    "\<And>j. length a \<le> j \<Longrightarrow> j < length a1 \<Longrightarrow> j \<noteq> s \<Longrightarrow> a1 ! j = NftElement False z"
  using assms
  by (auto simp: nft_array_slot_alloc_def first_index_Some first_index_None NFT_ARRAY_INC_def
      nth_list_update nth_append split: option.splits if_splits)

lemma class_all_updated:
  "c\<lparr>name := n, toObj := t, fromObj := f, objects := a\<rparr> = \<lparr>name = n, toObj = t, fromObj = f, objects = a\<rparr>"
  by (cases c) simp

lemma class_register_ok:
  assumes "className \<noteq> []" "prefs_class_find_by_name (classes p) className = None"
    "nft_array_slot_alloc zeroed_class (realloc_ok env) (classes p) = Some (cs1, s)" "init_ok env"
  shows "nft_prefs_class_register env p className t f =
    (True, p\<lparr>classes := cs1[s := NftElement True
       \<lparr>name = strncpy_classname className, toObj = t, fromObj = f, objects = []\<rparr>]\<rparr>)"
proof -
  from slot_alloc_props(1,2)[OF assms(3)] have s: "s < length cs1" "occupied (cs1 ! s)" by auto
  with assms show ?thesis
    by (simp add: nft_prefs_class_register_def nft_array_get_element_def nft_array_store_def
        prefs_obj_init_array_def nft_array_init_def update_objects_def class_all_updated)
qed

text \<open>
  \<^verbatim>\<open>nft_prefs_class_register\<close> returns failure and leaves the context unchanged for
  an empty name and for a name that the lookup finds.
\<close>

lemma class_register_rejects:
  "className = [] \<or> prefs_class_find_by_name (classes p) className \<noteq> None \<Longrightarrow>
   nft_prefs_class_register env p className t f = (False, p)"
  by (auto simp: nft_prefs_class_register_def)

lemma class_register_init_fails:
  assumes "className \<noteq> []" "prefs_class_find_by_name (classes p) className = None"
    "nft_array_slot_alloc zeroed_class (realloc_ok env) (classes p) = Some (cs1, s)" "\<not> init_ok env"
  shows "nft_prefs_class_register env p className t f =
    (False, p\<lparr>classes := cs1[s := NftElement False zeroed_class]\<rparr>)"
proof -
  from slot_alloc_props(1,2)[OF assms(3)] have s: "s < length cs1" "occupied (cs1 ! s)" by auto
  with assms show ?thesis
    by (simp add: nft_prefs_class_register_def nft_array_get_element_def nft_array_store_def
        prefs_obj_init_array_def nft_array_init_def nft_array_slot_free_def)
qed
subsection \<open>class.c: registration\<close>

lemma find_after_register:
  assumes a: "nft_array_slot_alloc z ok cs = Some (cs1, s)"
    and n: "prefs_class_find_by_name cs n = None" and c: "name c = n"
  shows "prefs_class_find_by_name (cs1[s := NftElement True c]) n = Some s"
proof -
  note p = slot_alloc_props[OF a]
  have "\<not> (occupied (cs1[s := NftElement True c] ! j) \<and> name (payload (cs1[s := NftElement True c] ! j)) = n)"
    if "j < s" for j
  proof (cases "j < length cs")
    case True
    with that p(4)[of j] have "cs1[s := NftElement True c] ! j = cs ! j" by simp
    moreover from True have "cs ! j \<in> set cs" by simp
    ultimately show ?thesis using n by (auto simp: find_by_name_None)
  next
    case False
    with that p(1) p(6)[of j] show ?thesis by simp
  qed
  with p(1) c show ?thesis by (simp add: find_by_name_Some)
qed

lemma find_other_after_register:
  assumes a: "nft_array_slot_alloc z ok cs = Some (cs1, s)"
    and n: "prefs_class_find_by_name cs n = None" and c: "name c \<noteq> n"
  shows "prefs_class_find_by_name (cs1[s := NftElement True c]) n = None"
proof -
  note p = slot_alloc_props[OF a]
  have "\<not> (occupied (cs1[s := NftElement True c] ! j) \<and> name (payload (cs1[s := NftElement True c] ! j)) = n)"
    if "j < length cs1" for j
  proof (cases "j = s")
    case True
    with that c show ?thesis by simp
  next
    case js: False
    show ?thesis
    proof (cases "j < length cs")
      case True
      with js p(4)[of j] have "cs1[s := NftElement True c] ! j = cs ! j" by simp
      moreover from True have "cs ! j \<in> set cs" by simp
      ultimately show ?thesis using n by (auto simp: find_by_name_None)
    next
      case False
      with that js p(6)[of j] show ?thesis by simp
    qed
  qed
  then show ?thesis unfolding find_by_name_None
    by (metis in_set_conv_nth length_list_update)
qed

lemma names_fit_find_long:
  "names_fit p \<Longrightarrow> NFT_PREFS_MAX_CLASSNAME < length L \<Longrightarrow> prefs_class_find_by_name (classes p) L = None"
  by (auto simp: names_fit_def find_by_name_None)

lemma names_fit_register:
  assumes "names_fit p"
  shows "names_fit (snd (nft_prefs_class_register env p className t f))"
proof (cases "className = [] \<or> prefs_class_find_by_name (classes p) className \<noteq> None")
  case True
  with assms show ?thesis by (simp add: class_register_rejects)
next
  case False
  show ?thesis
  proof (cases "nft_array_slot_alloc zeroed_class (realloc_ok env) (classes p)")
    case None
    with False assms show ?thesis by (simp add: nft_prefs_class_register_def)
  next
    case (Some r)
    obtain cs1 s where r: "r = (cs1, s)" by (cases r)
    note a = slot_alloc_props[OF Some[unfolded r]]
    have rest: "length (name (payload (cs1 ! j))) \<le> NFT_PREFS_MAX_CLASSNAME"
      if "j < length cs1" "j \<noteq> s" for j
    proof (cases "j < length (classes p)")
      case True
      with a(4)[of j] that assms show ?thesis by (simp add: names_fit_def)
    next
      case False
      with a(6)[of j] that show ?thesis by (simp add: zeroed_class_def)
    qed
    have upd: "names_fit (p\<lparr>classes := cs1[s := x]\<rparr>)"
      if "length (name (payload x)) \<le> NFT_PREFS_MAX_CLASSNAME" for x
      unfolding names_fit_def
    proof
      fix e assume "e \<in> set (classes (p\<lparr>classes := cs1[s := x]\<rparr>))"
      then obtain j where "j < length cs1" "e = cs1[s := x] ! j"
        by (auto simp: in_set_conv_nth)
      with rest[of j] that show "length (name (payload e)) \<le> NFT_PREFS_MAX_CLASSNAME"
        by (cases "j = s") simp_all
    qed
    show ?thesis
    proof (cases "init_ok env")
      case True
      with False Some r show ?thesis
        by (simp add: class_register_ok upd strncpy_classname_def)
    next
      case no: False
      with False Some r show ?thesis
        by (simp add: class_register_init_fails upd zeroed_class_def)
    qed
  qed
qed

subsection \<open>The claims on class.c and obj.c\<close>

text \<open>
  Claim C1 says that \<^verbatim>\<open>nft_prefs_obj_from_node\<close> returns no object and registers nothing
  when the to-object callback fails. The code at a callback that has stored an object
  before it fails: the object at address 7 is returned, and it is registered under the
  class (slot 0 of the object array of "person" is occupied by 7).
\<close>

theorem C1_failed_callback_still_registers:
  "map_sum id (\<lambda>r. (fst r, slot_summary (snd r)))
     (nft_prefs_obj_from_node env_ok failing_toObj ctx_person (PrefsNode ''person'' [] []) 0)
   = Inr (7, [(True, ''person'', [(True, 7), (False, 0)]), (False, [], []), (False, [], [])])"
  by code_simp

text \<open>
  In general a failing callback makes \<^verbatim>\<open>nft_prefs_obj_from_node\<close> return what the
  callback left in \<^verbatim>\<open>*newObj\<close>, after an attempt to register it; only when the
  callback left it null does the call return null and register nothing.
\<close>

lemma from_node_failed_callback:
  assumes f: "prefs_class_find_by_name (classes p) (node_name n) = Some k"
    and "toObj (payload (classes p ! k)) = fn" "fn \<noteq> NULL"
    and "code fn p NULL n userptr = (False, result, p1)"
  shows "nft_prefs_obj_from_node env code p n userptr
         = Inr (result, snd (nft_prefs_obj_register env p1 (node_name n) result))"
proof -
  from f have "k < length (classes p)" by (simp add: find_by_name_Some)
  with assms show ?thesis
    by (simp add: nft_prefs_obj_from_node_def prefs_class_toObj_def nft_array_get_element_def)
qed

lemma from_node_failed_callback_null_result:
  assumes "prefs_class_find_by_name (classes p) (node_name n) = Some k"
    and "toObj (payload (classes p ! k)) = fn" "fn \<noteq> NULL"
    and "code fn p NULL n userptr = (False, NULL, p1)"
  shows "nft_prefs_obj_from_node env code p n userptr = Inr (NULL, p1)"
  using from_node_failed_callback[of p n k fn code userptr NULL p1 env] assms
  by (simp add: nft_prefs_obj_register_def)

text \<open>
  When the class is found and the search of its object array finds the pointer,
  \<^verbatim>\<open>nft_prefs_obj_unregister\<close> returns without a change.
\<close>

lemma obj_unregister_registered_unchanged:
  assumes f: "prefs_class_find_by_name (classes p) className = Some k"
    and s: "nft_array_find_slot (\<lambda>e. obj_find_by_ptr_finder e obj) (objects (payload (classes p ! k))) = Some s"
  shows "nft_prefs_obj_unregister junk p className obj = p"
proof -
  from f have "k < length (classes p)" by (simp add: find_by_name_Some)
  with f s show ?thesis
    by (simp add: nft_prefs_obj_unregister_def prefs_class_objects_def prefs_obj_find_by_ptr_def)
qed

text \<open>
  Claim C2 says that \<^verbatim>\<open>nft_prefs_obj_unregister\<close> frees the slot of a registered
  pointer. The code on the object 7 registered under "person": the context is returned
  unchanged, whatever the uninitialised local variable \<^verbatim>\<open>slot\<close> holds, so the slot
  stays occupied by 7.
\<close>

theorem C2_unregister_keeps_registered_object:
  "nft_prefs_obj_unregister junk ctx_person_obj ''person'' 7 = ctx_person_obj
   \<and> slot_summary ctx_person_obj
       = [(True, ''person'', [(True, 7), (False, 0)]), (False, [], []), (False, [], [])]"
proof -
  have f: "prefs_class_find_by_name (classes ctx_person_obj) ''person'' = Some 0" by code_simp
  have s: "nft_array_find_slot (\<lambda>e. obj_find_by_ptr_finder e 7)
             (objects (payload (classes ctx_person_obj ! 0))) = Some 0" by code_simp
  have "slot_summary ctx_person_obj
       = [(True, ''person'', [(True, 7), (False, 0)]), (False, [], []), (False, [], [])]"
    by code_simp
  with obj_unregister_registered_unchanged[OF f s, of junk] show ?thesis by simp
qed

text \<open>
  For a pointer that is not registered the search fails, and
  \<^verbatim>\<open>prefs_obj_find_by_ptr\<close> goes on with the unwritten \<^verbatim>\<open>slot\<close>: when that value
  lies outside the array nothing changes; when it is 0, the object in slot 0 is
  unregistered instead.
\<close>

lemma obj_unregister_of_unregistered_pointer:
  "nft_prefs_obj_unregister 64 ctx_person_obj ''person'' 8 = ctx_person_obj
   \<and> slot_summary (nft_prefs_obj_unregister 0 ctx_person_obj ''person'' 8)
       = [(True, ''person'', [(False, 0), (False, 0)]), (False, [], []), (False, [], [])]"
  by code_simp

text \<open>
  Claim C3 says that both conversion entry points return failure for a class name
  that is not registered. The code on a context without classes: both calls read a
  field through the null class pointer.
\<close>

theorem C3_unknown_class_faults:
  "map_sum id fst (nft_prefs_obj_to_node env_ok naming_fromObj prefs_init ''person'' 7 0) = Inl NullDereference
   \<and> map_sum id fst (nft_prefs_obj_from_node env_ok failing_toObj prefs_init (PrefsNode ''person'' [] []) 0) = Inl NullDereference"
  by code_simp

text \<open>
  Claim C4: \<^verbatim>\<open>nft_prefs_class_register\<close> (class.c) returns \<^verbatim>\<open>NFT_FAILURE\<close> when the
  class name is empty or when an occupied slot of the class array already holds exactly
  that name, and the context it leaves is the context it got: the class array with every
  descriptor in it is unchanged.
\<close>

theorem C4_register_rejects_empty_and_duplicate_names:
  assumes "className = []
     \<or> (\<exists>k < length (classes p). occupied (classes p ! k) \<and> name (payload (classes p ! k)) = className)"
  shows "nft_prefs_class_register env p className toObjF fromObjF = (False, p)"
proof -
  from assms have "className = [] \<or> prefs_class_find_by_name (classes p) className \<noteq> None"
    by (auto simp: find_by_name_None)
  then show ?thesis by (rule class_register_rejects)
qed

theorem C4_register_rejects_empty_and_duplicate_names_witness:
  "fst (nft_prefs_class_register env_ok prefs_init ''person'' 1 NULL) = True
   \<and> nft_prefs_class_register env_ok ctx_person ''person'' 3 4 = (False, ctx_person)
   \<and> nft_prefs_class_register env_ok ctx_person [] 3 4 = (False, ctx_person)"
proof -
  have r: "fst (nft_prefs_class_register env_ok prefs_init ''person'' 1 NULL) = True" by code_simp
  have "0 < length (classes ctx_person) \<and> occupied (classes ctx_person ! 0)
      \<and> name (payload (classes ctx_person ! 0)) = ''person''"
    by code_simp
  then have d: "''person'' = [] \<or> (\<exists>k < length (classes ctx_person). occupied (classes ctx_person ! k)
      \<and> name (payload (classes ctx_person ! k)) = ''person'')"
    by blast
  have e: "([] :: string) = [] \<or> (\<exists>k < length (classes ctx_person). occupied (classes ctx_person ! k)
      \<and> name (payload (classes ctx_person ! k)) = [])"
    by simp
  from C4_register_rejects_empty_and_duplicate_names[OF d, of env_ok 3 4]
    C4_register_rejects_empty_and_duplicate_names[OF e, of env_ok 3 4] r
  show ?thesis by simp
qed

text \<open>
  Claim C5: when \<^verbatim>\<open>nft_prefs_class_register\<close> (class.c) has allocated slot \<open>s\<close> and the
  initialisation of the object array fails, the call returns failure, slot \<open>s\<close> is
  free and zeroed afterwards, every slot that is occupied afterwards was occupied before
  with the same content, and every slot occupied before is unchanged.
\<close>

theorem C5_failed_init_releases_slot:
  assumes "className \<noteq> []" and "prefs_class_find_by_name (classes p) className = None"
    and "nft_array_slot_alloc zeroed_class (realloc_ok env) (classes p) = Some (cs1, s)"
    and "\<not> init_ok env"
  shows "fst (nft_prefs_class_register env p className toObjF fromObjF) = False
    \<and> s < length (classes (snd (nft_prefs_class_register env p className toObjF fromObjF)))
    \<and> classes (snd (nft_prefs_class_register env p className toObjF fromObjF)) ! s = NftElement False zeroed_class
    \<and> (\<forall>j < length (classes (snd (nft_prefs_class_register env p className toObjF fromObjF))).
          occupied (classes (snd (nft_prefs_class_register env p className toObjF fromObjF)) ! j) \<longrightarrow>
          j < length (classes p) \<and> occupied (classes p ! j) \<and>
          classes (snd (nft_prefs_class_register env p className toObjF fromObjF)) ! j = classes p ! j)
    \<and> (\<forall>j < length (classes p). occupied (classes p ! j) \<longrightarrow>
          classes (snd (nft_prefs_class_register env p className toObjF fromObjF)) ! j = classes p ! j)"
proof -
  let ?r = "nft_prefs_class_register env p className toObjF fromObjF"
  have r: "?r = (False, p\<lparr>classes := cs1[s := NftElement False zeroed_class]\<rparr>)"
    using assms by (rule class_register_init_fails)
  note a = slot_alloc_props[OF assms(3)]
  have 1: "fst ?r = False" by (simp add: r)
  have 2: "s < length (classes (snd ?r))" using a(1) by (simp add: r)
  have 3: "classes (snd ?r) ! s = NftElement False zeroed_class" using a(1) by (simp add: r)
  have 4: "j < length (classes p) \<and> occupied (classes p ! j) \<and> classes (snd ?r) ! j = classes p ! j"
    if "j < length (classes (snd ?r))" "occupied (classes (snd ?r) ! j)" for j
  proof -
    from that have js: "j \<noteq> s" "j < length cs1" by (auto simp: r nth_list_update split: if_splits)
    with that have o: "occupied (cs1 ! j)" by (simp add: r)
    have "j < length (classes p)"
    proof (rule ccontr)
      assume "\<not> j < length (classes p)"
      with a(6)[of j] js have "cs1 ! j = NftElement False zeroed_class" by simp
      with o show False by simp
    qed
    with a(4)[of j] js o show ?thesis by (simp add: r)
  qed
  have 5: "classes (snd ?r) ! j = classes p ! j" if "j < length (classes p)" "occupied (classes p ! j)" for j
  proof -
    from that a(5) have "j \<noteq> s" by auto
    with a(4)[of j] that show ?thesis by (simp add: r)
  qed
  from 1 2 3 4 5 show ?thesis by blast
qed

theorem C5_failed_init_releases_slot_witness:
  "fst (nft_prefs_class_register env_init_fails ctx_person ''people'' 1 2) = False
   \<and> classes (snd (nft_prefs_class_register env_init_fails ctx_person ''people'' 1 2)) ! 1 = NftElement False zeroed_class
   \<and> classes (snd (nft_prefs_class_register env_init_fails ctx_person ''people'' 1 2)) ! 0 = classes ctx_person ! 0"
proof -
  have n: "''people'' \<noteq> []" by simp
  have f: "prefs_class_find_by_name (classes ctx_person) ''people'' = None" by code_simp
  have a: "nft_array_slot_alloc zeroed_class (realloc_ok env_init_fails) (classes ctx_person)
           = Some ((classes ctx_person)[1 := NftElement True (payload (classes ctx_person ! 1))], 1)"
    by code_simp
  have i: "\<not> init_ok env_init_fails" by (simp add: env_init_fails_def)
  have l: "0 < length (classes ctx_person)" "occupied (classes ctx_person ! 0)" by code_simp+
  from C5_failed_init_releases_slot[OF n f a i, of 1 2] l show ?thesis by blast
qed

text \<open>
  Claim C7 says that \<^verbatim>\<open>nft_prefs_class_unregister\<close> clears the name of class A so that
  its slot becomes reusable. The function of class.c on a context with "person" in slot
  0 and "people" in slot 1: the object of "person" is gone, the name is cleared and
  "people" is unchanged, but slot 0 stays occupied, and the next registered class takes
  slot 2.
\<close>

theorem C7_unregistered_class_keeps_its_slot:
  "slot_summary ctx_two_classes
     = [(True, ''person'', [(True, 7), (False, 0)]), (True, ''people'', [(True, 9), (False, 0)]), (False, [], [])]
   \<and> slot_summary (nft_prefs_class_unregister ctx_two_classes ''person'')
     = [(True, [], []), (True, ''people'', [(True, 9), (False, 0)]), (False, [], [])]
   \<and> slot_summary (snd (nft_prefs_class_register env_ok
        (nft_prefs_class_unregister ctx_two_classes ''person'') ''pet'' 5 6))
     = [(True, [], []), (True, ''people'', [(True, 9), (False, 0)]), (True, ''pet'', [])]"
  by code_simp

text \<open>
  The rest of claim C7 holds on class.c. When the handles of class A are as
  registration writes them, \<^verbatim>\<open>nft_prefs_class_unregister\<close> changes the slot of A only:
  its object array is released, its name and callbacks are cleared, and it stays
  occupied; every other class and its objects are unchanged. Registration keeps the
  handles in that form.
\<close>

lemma class_with_objects_same: "class_with_objects cs k (objects (payload (cs ! k))) = cs"
  by (simp add: class_with_objects_def)

lemma objects_of_class_with_objects:
  "k < length cs \<Longrightarrow> prefs_class_objects (class_with_objects cs k a) (Some k) = Some a"
  by (simp add: prefs_class_objects_def class_with_objects_def)

lemma update_objects_class_with_objects:
  "k < length cs \<Longrightarrow> update_objects (class_with_objects cs k a) k f = class_with_objects cs k (f a)"
  by (simp add: update_objects_def nft_array_store_def class_with_objects_def)

lemma zeroed_obj_cleared: "zeroed_obj\<lparr>object := NULL, klass := None\<rparr> = zeroed_obj"
  by (simp add: zeroed_obj_def)

lemma obj_free_own_slot:
  assumes "k < length cs" "i < length a" "klass (payload (a ! i)) = Some k" "slot (payload (a ! i)) = i"
  shows "prefs_obj_free (class_with_objects cs k a) (Some (k, i))
         = class_with_objects cs k (a[i := NftElement False zeroed_obj])"
  using assms
  by (simp add: prefs_obj_free_def objects_of_class_with_objects nft_array_get_element_def
      update_objects_class_with_objects nft_array_slot_free_def nft_array_store_def zeroed_obj_cleared)

lemma handles_wf_freed:
  assumes "handles_wf a k"
  shows "handles_wf (a[i := NftElement False zeroed_obj]) k"
  unfolding handles_wf_def
proof (intro allI impI)
  fix j assume j: "j < length (a[i := NftElement False zeroed_obj])"
    and o: "occupied (a[i := NftElement False zeroed_obj] ! j)"
  from j o have "j \<noteq> i" by (cases "j = i") simp_all
  with j o assms
  show "klass (payload (a[i := NftElement False zeroed_obj] ! j)) = Some k \<and>
        slot (payload (a[i := NftElement False zeroed_obj] ! j)) = j"
    by (simp add: handles_wf_def)
qed

lemma foreach_obj_free:
  assumes "k < length cs" "handles_wf a k"
  shows "\<exists>b n'. fold (\<lambda>i t. if i < length (case prefs_class_objects (fst t) (Some k) of None \<Rightarrow> [] | Some a \<Rightarrow> a)
                                 \<and> occupied ((case prefs_class_objects (fst t) (Some k) of None \<Rightarrow> [] | Some a \<Rightarrow> a) ! i)
                               then obj_free_visitor k i t else t)
                     is (class_with_objects cs k a, n)
               = (class_with_objects cs k b, n')"
  using assms(2)
proof (induction "is" arbitrary: a n)
  case Nil
  show ?case by simp blast
next
  case (Cons i "is")
  show ?case
  proof (cases "i < length a \<and> occupied (a ! i)")
    case True
    with Cons.prems have "klass (payload (a ! i)) = Some k" "slot (payload (a ! i)) = i"
      by (simp_all add: handles_wf_def)
    with True assms(1) have
      "obj_free_visitor k i (class_with_objects cs k a, n)
       = (class_with_objects cs k (a[i := NftElement False zeroed_obj]), n + 1)"
      by (simp add: obj_free_visitor_def obj_free_own_slot)
    with True assms(1) Cons.IH[OF handles_wf_freed[OF Cons.prems], of i "n + 1"] show ?thesis
      by (simp add: objects_of_class_with_objects)
  next
    case False
    then have "\<not> (i < length a \<and> occupied (a ! i))" .
    with assms(1) Cons.IH[OF Cons.prems, of n] show ?thesis
      by (simp only: fold_simps comp_def fst_conv objects_of_class_with_objects option.case if_False)
  qed
qed

lemma class_free_result:
  assumes k: "k < length cs" and o: "occupied (cs ! k)" and wf: "handles_wf (objects (payload (cs ! k))) k"
  shows "prefs_class_free cs (Some k)
         = cs[k := NftElement True \<lparr>name = [], toObj = NULL, fromObj = NULL, objects = []\<rparr>]"
proof -
  let ?a = "objects (payload (cs ! k))"
  from foreach_obj_free[OF k wf, of "[0..<length ?a]" 0] obtain b n' where
    "nft_array_foreach_element
       (\<lambda>t. case prefs_class_objects (fst t) (Some k) of None \<Rightarrow> [] | Some a \<Rightarrow> a)
       (obj_free_visitor k) (cs, 0) = (class_with_objects cs k b, n')"
    using k by (auto simp: nft_array_foreach_element_def class_with_objects_same prefs_class_objects_def)
  then have "prefs_class_free cs (Some k)
      = nft_array_store (class_with_objects cs k (nft_array_deinit b)) k
          (\<lambda>c. c\<lparr>name := [], fromObj := NULL, toObj := NULL\<rparr>)"
    using k by (simp add: prefs_class_free_def update_objects_class_with_objects)
  also have "\<dots> = cs[k := NftElement True \<lparr>name = [], toObj = NULL, fromObj = NULL, objects = []\<rparr>]"
    using k o by (cases "payload (cs ! k)")
      (simp add: nft_array_store_def class_with_objects_def nft_array_deinit_def)
  finally show ?thesis .
qed

lemma class_unregister_frame:
  assumes f: "prefs_class_find_by_name (classes p) A = Some k"
    and wf: "handles_wf (objects (payload (classes p ! k))) k"
  shows "classes (nft_prefs_class_unregister p A)
         = (classes p)[k := NftElement True \<lparr>name = [], toObj = NULL, fromObj = NULL, objects = []\<rparr>]"
proof -
  from f have "k < length (classes p)" "occupied (classes p ! k)" by (simp_all add: find_by_name_Some)
  from class_free_result[OF this wf] f show ?thesis by (simp add: nft_prefs_class_unregister_def)
qed

lemma handles_wf_empty: "handles_wf [] k"
  by (simp add: handles_wf_def)

lemma handles_wf_obj_register:
  assumes f: "prefs_class_find_by_name (classes p) className = Some k"
    and wf: "handles_wf (objects (payload (classes p ! k))) k"
  shows "handles_wf (objects (payload (classes (snd (nft_prefs_obj_register env p className obj)) ! k))) k"
proof (cases "obj = NULL")
  case True
  with wf show ?thesis by (simp add: nft_prefs_obj_register_def)
next
  case False
  from f have k: "k < length (classes p)" by (simp add: find_by_name_Some)
  let ?a = "objects (payload (classes p ! k))"
  show ?thesis
  proof (cases "nft_array_slot_alloc zeroed_obj (realloc_ok env) ?a")
    case None
    with False f k wf show ?thesis
      by (simp add: nft_prefs_obj_register_def prefs_class_objects_def)
  next
    case (Some r)
    obtain a1 s where r: "r = (a1, s)" by (cases r)
    note a = slot_alloc_props[OF Some[unfolded r]]
    let ?b = "a1[s := NftElement (occupied (a1 ! s)) ((payload (a1 ! s))\<lparr>object := obj, klass := Some k, slot := s\<rparr>)]"
    have res: "snd (nft_prefs_obj_register env p className obj)
        = p\<lparr>classes := class_with_objects (classes p) k ?b\<rparr>"
      using False f k Some r a(1)
      by (simp add: nft_prefs_obj_register_def prefs_class_objects_def nft_array_get_element_def
          nft_array_store_def update_objects_def class_with_objects_def)
    have "handles_wf ?b k"
      unfolding handles_wf_def
    proof (intro allI impI)
      fix j assume j: "j < length ?b" and o: "occupied (?b ! j)"
      show "klass (payload (?b ! j)) = Some k \<and> slot (payload (?b ! j)) = j"
      proof (cases "j = s")
        case True
        with a(1) show ?thesis by simp
      next
        case js: False
        show ?thesis
        proof (cases "j < length ?a")
          case True
          with js a(4)[of j] j o wf show ?thesis by (simp add: handles_wf_def)
        next
          case False
          with js a(6)[of j] j o show ?thesis by simp
        qed
      qed
    qed
    with k show ?thesis by (simp add: res class_with_objects_def)
  qed
qed

text \<open>
  Claim C8, amended: for a registered class whose from-object callback \<open>fn\<close> is not
  null and a non-null object, \<^verbatim>\<open>nft_prefs_obj_to_node\<close> creates a new empty node
  tagged with the class name and calls \<open>fn\<close> on the context, that node, the object
  and the user pointer; it returns the node as the callback left it when the callback
  succeeds, and no node when the callback fails. When \<^verbatim>\<open>xmlNewNode\<close> returns null,
  the call returns no node, the callback is not called and the context is unchanged.
\<close>

theorem C8_to_node_runs_from_object_callback:
  assumes "prefs_class_find_by_name (classes p) className = Some k"
    and "fromObj (payload (classes p ! k)) = fn" and "fn \<noteq> NULL"
    and "obj \<noteq> NULL"
  shows "nft_prefs_obj_to_node env code p className obj userptr =
     (if newnode_ok env
      then (case code fn p (PrefsNode className [] []) obj userptr of
              (ok, node1, p1) \<Rightarrow> Inr (if ok then Some node1 else None, p1))
      else Inr (None, p))"
proof (cases "newnode_ok env")
  case True
  with to_node_callback[of p className k obj env code userptr] assms show ?thesis by simp
next
  case False
  with assms(4) show ?thesis by (simp add: nft_prefs_obj_to_node_def xmlNewNode_def)
qed

theorem C8_to_node_runs_from_object_callback_witness:
  "nft_prefs_obj_to_node env_ok naming_fromObj ctx_snapshot ''person'' 7 0
     = Inr (Some (PrefsNode ''person'' [(''name'', ''Bob'')] []), ctx_snapshot)
   \<and> nft_prefs_obj_to_node env_ok naming_fromObj ctx_snapshot ''person'' 13 0
     = Inr (None, ctx_snapshot)
   \<and> nft_prefs_obj_to_node env_no_node naming_fromObj ctx_snapshot ''person'' 7 0
     = Inr (None, ctx_snapshot)"
proof -
  have f: "prefs_class_find_by_name (classes ctx_snapshot) ''person'' = Some 0" by code_simp
  have c: "fromObj (payload (classes ctx_snapshot ! 0)) = 2" by code_simp
  have e: "newnode_ok env_ok" "\<not> newnode_ok env_no_node" by (simp_all add: env_ok_def env_no_node_def)
  have "nft_prefs_obj_to_node env_ok naming_fromObj ctx_snapshot ''person'' 7 0
     = Inr (Some (PrefsNode ''person'' [(''name'', ''Bob'')] []), ctx_snapshot)"
    using C8_to_node_runs_from_object_callback[OF f c, of 7 env_ok naming_fromObj 0] e
    by (simp add: naming_fromObj_def)
  moreover have "nft_prefs_obj_to_node env_ok naming_fromObj ctx_snapshot ''person'' 13 0
     = Inr (None, ctx_snapshot)"
    using C8_to_node_runs_from_object_callback[OF f c, of 13 env_ok naming_fromObj 0] e
    by (simp add: naming_fromObj_def)
  moreover have "nft_prefs_obj_to_node env_no_node naming_fromObj ctx_snapshot ''person'' 7 0
     = Inr (None, ctx_snapshot)"
    using C8_to_node_runs_from_object_callback[OF f c, of 7 env_no_node naming_fromObj 0] e
    by simp
  ultimately show ?thesis by simp
qed

text \<open>
  Claim C8 as stated holds for every context with a registered class. The class "people"
  is registered with a null from-object callback, as tests/prefs-to-obj.c registers it:
  the call for its object 9 calls through the null function pointer and delivers neither
  a node nor a failure. And when no node can be created, the callback of "person", which
  would succeed for the object 7, is not called and no node is returned.
\<close>

theorem C8_null_callback_counterexample:
  "prefs_class_find_by_name (classes ctx_two_classes) ''people'' = Some 1
   \<and> fromObj (payload (classes ctx_two_classes ! 1)) = NULL
   \<and> nft_prefs_obj_to_node env_ok naming_fromObj ctx_two_classes ''people'' 9 0 = Inl NullFunctionCall
   \<and> nft_prefs_obj_to_node env_no_node naming_fromObj ctx_snapshot ''person'' 7 0 = Inr (None, ctx_snapshot)"
  by code_simp

text \<open>
  Claim C9, amended: registering a name of more than 64 characters succeeds and stores
  its first 64 characters; a lookup of the full name finds nothing and unregistering it
  changes nothing; registering the 64-character prefix afterwards fails as a duplicate;
  registering a name of more than 64 characters afterwards (the same name, or another
  one with the same first 64 characters) succeeds, since the lookup compares the full
  name with the stored prefixes.
\<close>

theorem C9_long_names_truncated:
  assumes "NFT_PREFS_MAX_CLASSNAME < length className" and "names_fit p"
    and "nft_array_slot_alloc zeroed_class (realloc_ok env) (classes p) = Some (cs1, s)"
    and "init_ok env"
    and "NFT_PREFS_MAX_CLASSNAME < length className2" and "realloc_ok env2" and "init_ok env2"
  shows "fst (nft_prefs_class_register env p className toObjF fromObjF) = True
    \<and> classes (snd (nft_prefs_class_register env p className toObjF fromObjF)) ! s
        = NftElement True \<lparr>name = take NFT_PREFS_MAX_CLASSNAME className, toObj = toObjF,
                            fromObj = fromObjF, objects = []\<rparr>
    \<and> prefs_class_find_by_name (classes (snd (nft_prefs_class_register env p className toObjF fromObjF)))
        className = None
    \<and> nft_prefs_class_unregister (snd (nft_prefs_class_register env p className toObjF fromObjF)) className
        = snd (nft_prefs_class_register env p className toObjF fromObjF)
    \<and> fst (nft_prefs_class_register env2 (snd (nft_prefs_class_register env p className toObjF fromObjF))
              (take NFT_PREFS_MAX_CLASSNAME className) toObjF2 fromObjF2) = False
    \<and> fst (nft_prefs_class_register env2 (snd (nft_prefs_class_register env p className toObjF fromObjF))
              className2 toObjF2 fromObjF2) = True"
proof -
  let ?r = "nft_prefs_class_register env p className toObjF fromObjF"
  let ?c = "\<lparr>name = strncpy_classname className, toObj = toObjF, fromObj = fromObjF, objects = []\<rparr>"
  from assms(1) have ne: "className \<noteq> []" by auto
  have nf: "prefs_class_find_by_name (classes p) className = None"
    using assms(1,2) by (simp add: names_fit_find_long)
  have r: "?r = (True, p\<lparr>classes := cs1[s := NftElement True ?c]\<rparr>)"
    using ne nf assms(3,4) by (rule class_register_ok)
  note a = slot_alloc_props[OF assms(3)]
  have 1: "fst ?r = True" by (simp add: r)
  have 2: "classes (snd ?r) ! s = NftElement True \<lparr>name = take NFT_PREFS_MAX_CLASSNAME className,
             toObj = toObjF, fromObj = fromObjF, objects = []\<rparr>"
    using a(1) by (simp add: r strncpy_classname_def)
  have "name ?c \<noteq> className" using assms(1) by (auto simp: strncpy_classname_def NFT_PREFS_MAX_CLASSNAME_def)
  from find_other_after_register[OF assms(3) nf this]
  have 3: "prefs_class_find_by_name (classes (snd ?r)) className = None" by (simp add: r)
  have 4: "nft_prefs_class_unregister (snd ?r) className = snd ?r"
    by (simp add: nft_prefs_class_unregister_def 3)
  have "occupied (classes (snd ?r) ! s) \<and> name (payload (classes (snd ?r) ! s)) = take NFT_PREFS_MAX_CLASSNAME className"
    by (simp add: 2)
  moreover have "classes (snd ?r) ! s \<in> set (classes (snd ?r))"
    using a(1) by (intro nth_mem) (simp add: r)
  ultimately have "prefs_class_find_by_name (classes (snd ?r)) (take NFT_PREFS_MAX_CLASSNAME className) \<noteq> None"
    unfolding find_by_name_None by blast
  then have 5: "fst (nft_prefs_class_register env2 (snd ?r) (take NFT_PREFS_MAX_CLASSNAME className) toObjF2 fromObjF2) = False"
    by (simp add: class_register_rejects)
  have fit: "names_fit (snd ?r)" using assms(2) by (rule names_fit_register)
  have ne2: "className2 \<noteq> []" using assms(5) by auto
  have nf2: "prefs_class_find_by_name (classes (snd ?r)) className2 = None"
    using fit assms(5) by (simp add: names_fit_find_long)
  obtain cs2 s2 where "nft_array_slot_alloc zeroed_class (realloc_ok env2) (classes (snd ?r)) = Some (cs2, s2)"
    using slot_alloc_ok[OF assms(6), of zeroed_class "classes (snd ?r)"] by blast
  from class_register_ok[OF ne2 nf2 this assms(7)]
  have 6: "fst (nft_prefs_class_register env2 (snd ?r) className2 toObjF2 fromObjF2) = True" by simp
  from 1 2 3 4 5 6 show ?thesis by blast
qed

theorem C9_long_names_truncated_witness:
  "fst (nft_prefs_class_register env_ok ctx_person long_name_x 1 2) = True
   \<and> name (payload (classes (snd (nft_prefs_class_register env_ok ctx_person long_name_x 1 2)) ! 1))
       = replicate 64 (CHR ''a'')
   \<and> prefs_class_find_by_name (classes (snd (nft_prefs_class_register env_ok ctx_person long_name_x 1 2)))
       long_name_x = None
   \<and> fst (nft_prefs_class_register env_ok (snd (nft_prefs_class_register env_ok ctx_person long_name_x 1 2))
             (replicate 64 (CHR ''a'')) 3 4) = False
   \<and> fst (nft_prefs_class_register env_ok (snd (nft_prefs_class_register env_ok ctx_person long_name_x 1 2))
             long_name_y 3 4) = True"
proof -
  have l: "NFT_PREFS_MAX_CLASSNAME < length long_name_x" "NFT_PREFS_MAX_CLASSNAME < length long_name_y"
    by (simp_all add: NFT_PREFS_MAX_CLASSNAME_def long_name_x_def long_name_y_def)
  have fit: "names_fit ctx_person"
    unfolding ctx_person_def by (rule names_fit_register) (simp add: names_fit_def prefs_init_def)
  have a: "nft_array_slot_alloc zeroed_class (realloc_ok env_ok) (classes ctx_person)
           = Some ((classes ctx_person)[1 := NftElement True (payload (classes ctx_person ! 1))], 1)"
    by code_simp
  have e: "init_ok env_ok" "realloc_ok env_ok" by (simp_all add: env_ok_def)
  have t: "take NFT_PREFS_MAX_CLASSNAME long_name_x = replicate 64 (CHR ''a'')"
    by (simp add: NFT_PREFS_MAX_CLASSNAME_def long_name_x_def)
  from C9_long_names_truncated[OF l(1) fit a e(1) l(2) e(2) e(1), of 1 2 3 4]
  show ?thesis by (simp add: t)
qed

text \<open>
  Claim C9 as stated says that two names with the same first 64 characters are treated
  as the same class by the duplicate check. Two such names are both registered, in two
  slots that store the same 64 characters.
\<close>

theorem C9_shared_prefix_counterexample:
  "long_name_x \<noteq> long_name_y
   \<and> take NFT_PREFS_MAX_CLASSNAME long_name_x = take NFT_PREFS_MAX_CLASSNAME long_name_y
   \<and> fst (nft_prefs_class_register env_ok prefs_init long_name_x 1 2) = True
   \<and> fst (nft_prefs_class_register env_ok
            (snd (nft_prefs_class_register env_ok prefs_init long_name_x 1 2)) long_name_y 3 4) = True
   \<and> map (\<lambda>e. (occupied e, name (payload e)))
        (take 3 (classes (snd (nft_prefs_class_register env_ok
            (snd (nft_prefs_class_register env_ok prefs_init long_name_x 1 2)) long_name_y 3 4))))
      = [(True, replicate 64 (CHR ''a'')), (True, replicate 64 (CHR ''a'')), (False, [])]"
  by code_simp

text \<open>
  Claim C10: a class can be registered with a null from-object callback, and
  \<^verbatim>\<open>nft_prefs_obj_to_node\<close> on that class with a non-null object calls through the
  null function pointer.
\<close>

theorem C10_null_from_object_callback_is_called:
  assumes "className \<noteq> []" and "length className \<le> NFT_PREFS_MAX_CLASSNAME"
    and "prefs_class_find_by_name (classes p) className = None"
    and "realloc_ok env" and "init_ok env" and "obj \<noteq> NULL" and "newnode_ok env2"
  shows "fst (nft_prefs_class_register env p className toObjF NULL) = True
    \<and> nft_prefs_obj_to_node env2 code (snd (nft_prefs_class_register env p className toObjF NULL))
         className obj userptr = Inl NullFunctionCall"
proof -
  let ?r = "nft_prefs_class_register env p className toObjF NULL"
  let ?c = "\<lparr>name = strncpy_classname className, toObj = toObjF, fromObj = NULL, objects = []\<rparr>"
  obtain cs1 s where a: "nft_array_slot_alloc zeroed_class (realloc_ok env) (classes p) = Some (cs1, s)"
    using slot_alloc_ok[OF assms(4), of zeroed_class "classes p"] by blast
  have r: "?r = (True, p\<lparr>classes := cs1[s := NftElement True ?c]\<rparr>)"
    using assms(1,3) a assms(5) by (rule class_register_ok)
  have n: "name ?c = className" using assms(2) by (simp add: strncpy_classname_def)
  have f: "prefs_class_find_by_name (classes (snd ?r)) className = Some s"
    using find_after_register[OF a assms(3) n] by (simp add: r)
  have c: "fromObj (payload (classes (snd ?r) ! s)) = NULL"
    using slot_alloc_props(1)[OF a] by (simp add: r)
  from to_node_null_callback[OF f c assms(6,7)] show ?thesis by (simp add: r)
qed

theorem C10_null_from_object_callback_is_called_witness:
  "fst (nft_prefs_class_register env_ok prefs_init ''person'' 1 NULL) = True
   \<and> nft_prefs_obj_to_node env_ok naming_fromObj ctx_person ''person'' 7 0 = Inl NullFunctionCall"
proof -
  have 1: "''person'' \<noteq> []" "length ''person'' \<le> NFT_PREFS_MAX_CLASSNAME"
    by (simp_all add: NFT_PREFS_MAX_CLASSNAME_def)
  have 2: "prefs_class_find_by_name (classes prefs_init) ''person'' = None" by code_simp
  have 3: "realloc_ok env_ok" "init_ok env_ok" "newnode_ok env_ok" by (simp_all add: env_ok_def)
  have 4: "(7::nat) \<noteq> NULL" by simp
  from C10_null_from_object_callback_is_called[OF 1 2 3(1,2) 4 3(3), of 1 naming_fromObj 0]
  show ?thesis by (simp add: ctx_person_def)
qed


subsection \<open>The slot array: reuse of slots and growth\<close>

text \<open>
  A registration of an object (\<^verbatim>\<open>nft_prefs_obj_register\<close>, obj.c) is one allocation
  in the object array of the class: it fails when the allocation fails, and otherwise it
  writes the handle into the slot that \<^verbatim>\<open>nft_array_slot_alloc\<close> returned.
\<close>

lemma obj_register_is_slot_alloc:
  assumes "prefs_class_find_by_name (classes p) className = Some k" "obj \<noteq> NULL"
  shows "nft_prefs_obj_register env p className obj =
     (case nft_array_slot_alloc zeroed_obj (realloc_ok env) (objects (payload (classes p ! k))) of
        None \<Rightarrow> (False, p)
      | Some (a1, s) \<Rightarrow>
          (True, p\<lparr>classes := class_with_objects (classes p) k
                     (a1[s := NftElement True \<lparr>object = obj, klass = Some k, slot = s\<rparr>])\<rparr>))"
proof -
  from assms(1) have k: "k < length (classes p)" by (simp add: find_by_name_Some)
  show ?thesis
  proof (cases "nft_array_slot_alloc zeroed_obj (realloc_ok env) (objects (payload (classes p ! k)))")
    case None
    with assms k show ?thesis by (simp add: nft_prefs_obj_register_def prefs_class_objects_def)
  next
    case (Some r)
    obtain a1 s where r: "r = (a1, s)" by (cases r)
    note a = slot_alloc_props(1,2)[OF Some[unfolded r]]
    have e: "(payload (a1 ! s))\<lparr>object := obj, klass := Some k, slot := s\<rparr>
        = \<lparr>object = obj, klass = Some k, slot = s\<rparr>"
      by (cases "payload (a1 ! s)") simp
    from assms k Some r a show ?thesis
      by (simp add: nft_prefs_obj_register_def prefs_class_objects_def nft_array_get_element_def
          nft_array_store_def update_objects_def class_with_objects_def)
         (simp only: e)
  qed
qed

lemma first_index_append_None:
  "first_index P xs = None \<Longrightarrow>
   first_index P (xs @ ys) = (case first_index P ys of None \<Rightarrow> None | Some i \<Rightarrow> Some (length xs + i))"
  by (induction xs) (auto split: if_splits option.splits)

lemma first_index_append_Some:
  "first_index P xs = Some i \<Longrightarrow> first_index P (xs @ ys) = Some i"
  by (induction xs arbitrary: i) (auto split: if_splits)

lemma first_index_map: "first_index P (map f xs) = first_index (\<lambda>x. P (f x)) xs"
  by (induction xs) simp_all

lemma filter_update_count:
  assumes "i < length xs"
  shows "length (filter P (xs[i := y])) + (if P (xs ! i) then 1 else 0)
         = length (filter P xs) + (if P y then 1 else 0)"
proof -
  define a where "a = take i xs"
  define b where "b = drop (Suc i) xs"
  define v where "v = xs ! i"
  have xs: "xs = a @ v # b" unfolding a_def b_def v_def using assms by (rule id_take_nth_drop)
  have up: "xs[i := y] = a @ y # b" unfolding a_def b_def using assms by (rule upd_conv_take_nth_drop)
  show ?thesis unfolding up v_def[symmetric] unfolding xs by simp
qed

lemma free_slot_count_0: "free_slot_count a = 0 \<longleftrightarrow> first_index (\<lambda>e. \<not> occupied e) a = None"
  by (simp add: free_slot_count_def first_index_None filter_empty_conv)

lemma slot_alloc_length:
  assumes "nft_array_slot_alloc z ok a = Some (a1, s)"
  shows "length a1 = (if free_slot_count a = 0 then length a + NFT_ARRAY_INC else length a)"
  using assms
  by (auto simp: free_slot_count_0 nft_array_slot_alloc_def split: option.splits if_splits)

lemma slot_alloc_None:
  "nft_array_slot_alloc z ok a = None \<longleftrightarrow> free_slot_count a = 0 \<and> \<not> ok"
  by (auto simp: free_slot_count_0 nft_array_slot_alloc_def split: option.splits)

lemma slot_free_length: "length (nft_array_slot_free z a s) = length a"
  by (simp add: nft_array_slot_free_def)

lemma run_slot_ops_length: "length a \<le> length (run_slot_ops z ops a)"
proof (induction ops arbitrary: a)
  case Nil
  then show ?case by simp
next
  case (Cons op ops)
  show ?case
  proof (cases op)
    case (Alloc ok)
    show ?thesis
    proof (cases "nft_array_slot_alloc z ok a")
      case None
      with Alloc Cons.IH[of a] show ?thesis by simp
    next
      case (Some r)
      obtain a1 s where r: "r = (a1, s)" by (cases r)
      from slot_alloc_props(3)[of z ok a a1 s] Some r have "length a \<le> length a1" by simp
      also have "\<dots> \<le> length (run_slot_ops z ops a1)" by (rule Cons.IH)
      finally show ?thesis using Alloc Some r by simp
    qed
  next
    case (Free s)
    with Cons.IH[of "nft_array_slot_free z a s"] show ?thesis by (simp add: slot_free_length)
  qed
qed

lemma slot_alloc_occupied:
  assumes "nft_array_slot_alloc z ok a = Some (a1, s)" "i < length a1"
  shows "occupied (a1 ! i) \<longleftrightarrow> i = s \<or> (i < length a \<and> occupied (a ! i))"
proof (cases "i = s")
  case True
  with slot_alloc_props(2)[OF assms(1)] show ?thesis by simp
next
  case False
  show ?thesis
  proof (cases "i < length a")
    case True
    with False slot_alloc_props(4)[OF assms(1), of i] show ?thesis by simp
  next
    case no: False
    with False slot_alloc_props(6)[OF assms(1), of i] assms(2) show ?thesis by simp
  qed
qed

lemma alloc_slots_char:
  assumes "alloc_slots z oks a = Some (a1, ss)"
  shows "length a \<le> length a1 \<and> length ss = length oks \<and> distinct ss
      \<and> (\<forall>i < length a1. occupied (a1 ! i) \<longleftrightarrow> i \<in> set ss \<or> (i < length a \<and> occupied (a ! i)))
      \<and> (\<forall>s \<in> set ss. s < length a1 \<and> \<not> (s < length a \<and> occupied (a ! s)))"
  using assms
proof (induction oks arbitrary: a ss)
  case Nil
  then show ?case by auto
next
  case (Cons ok oks)
  from Cons.prems obtain a' s ss0 where
    st: "nft_array_slot_alloc z ok a = Some (a', s)" and
    rest: "alloc_slots z oks a' = Some (a1, ss0)" and ss: "ss = s # ss0"
    by (auto split: option.splits)
  note p = slot_alloc_props[OF st]
  from Cons.IH[OF rest] have
    ih: "length a' \<le> length a1" "length ss0 = length oks" "distinct ss0"
      "\<forall>i < length a1. occupied (a1 ! i) \<longleftrightarrow> i \<in> set ss0 \<or> (i < length a' \<and> occupied (a' ! i))"
      "\<forall>t \<in> set ss0. t < length a1 \<and> \<not> (t < length a' \<and> occupied (a' ! t))"
    by auto
  have s1: "s < length a1" using p(1) ih(1) by simp
  have sn: "s \<notin> set ss0" using ih(5) p(1,2) by auto
  have occ: "occupied (a1 ! i) \<longleftrightarrow> i \<in> set ss \<or> (i < length a \<and> occupied (a ! i))" if "i < length a1" for i
  proof (cases "i < length a'")
    case True
    with ih(4) that slot_alloc_occupied[OF st True] show ?thesis by (auto simp: ss)
  next
    case False
    with p(1,3) have "i \<noteq> s" "\<not> i < length a" by auto
    with ih(4) that False show ?thesis by (auto simp: ss)
  qed
  have fr: "t < length a1 \<and> \<not> (t < length a \<and> occupied (a ! t))" if "t \<in> set ss" for t
  proof (cases "t = s")
    case True
    with s1 p(5) show ?thesis by auto
  next
    case False
    with that have t: "t \<in> set ss0" by (simp add: ss)
    with ih(5) have t1: "t < length a1" "\<not> (t < length a' \<and> occupied (a' ! t))" by auto
    show ?thesis
    proof (cases "t < length a")
      case True
      with p(3) have "t < length a'" by simp
      with t1(2) have "\<not> occupied (a' ! t)" by simp
      with p(4)[OF True False] t1(1) show ?thesis by simp
    next
      case no: False
      with t1(1) show ?thesis by simp
    qed
  qed
  from p(3) ih(1,2,3) sn occ fr show ?case by (auto simp: ss)
qed

lemma free_slots_char:
  "length (free_slots z a us) = length a
   \<and> (\<forall>i < length a. occupied (free_slots z a us ! i) \<longleftrightarrow> occupied (a ! i) \<and> i \<notin> set us)"
proof (induction us arbitrary: a)
  case Nil
  then show ?case by simp
next
  case (Cons u us)
  let ?b = "nft_array_slot_free z a u"
  have l: "length ?b = length a" by (rule slot_free_length)
  have o: "occupied (?b ! i) \<longleftrightarrow> occupied (a ! i) \<and> i \<noteq> u" if "i < length a" for i
    using that by (auto simp: nft_array_slot_free_def nth_list_update)
  from Cons.IH[of ?b] l o show ?case by auto
qed

text \<open>Freeing the allocated slots gives back the occupancy of before.\<close>

lemma alloc_then_free_occupancy:
  assumes "alloc_slots z oks a = Some (a1, ss)" "set us = set ss"
  shows "map occupied (free_slots z a1 us) = map occupied a @ replicate (length a1 - length a) False"
proof (rule nth_equalityI)
  from alloc_slots_char[OF assms(1)] have l: "length a \<le> length a1" by simp
  with free_slots_char[of z a1 us]
  show "length (map occupied (free_slots z a1 us))
      = length (map occupied a @ replicate (length a1 - length a) False)"
    by simp
next
  fix i assume "i < length (map occupied (free_slots z a1 us))"
  with free_slots_char[of z a1 us] have i: "i < length a1" by simp
  from alloc_slots_char[OF assms(1)] have
    c: "occupied (a1 ! i) \<longleftrightarrow> i \<in> set ss \<or> (i < length a \<and> occupied (a ! i))"
      "i \<in> set ss \<Longrightarrow> \<not> (i < length a \<and> occupied (a ! i))"
    using i by auto
  from free_slots_char[of z a1 us] i have
    f: "occupied (free_slots z a1 us ! i) \<longleftrightarrow> occupied (a1 ! i) \<and> i \<notin> set us" by simp
  from free_slots_char[of z a1 us] i have li: "i < length (free_slots z a1 us)" by simp
  show "map occupied (free_slots z a1 us) ! i
      = (map occupied a @ replicate (length a1 - length a) False) ! i"
    using c f i li by (auto simp: nth_append assms(2))
qed

lemma first_free_of_occupancy:
  "first_index (\<lambda>e. \<not> occupied e) a = first_index Not (map occupied a)"
  by (simp add: first_index_map)

lemma replicate_block: "replicate 64 x = x # replicate 63 x"
  by (simp add: numeral_eq_Suc)

lemma alloc_slots_length_mono:
  "alloc_slots z oks a = Some (a1, ss) \<Longrightarrow> length a \<le> length a1"
  using alloc_slots_char[of z oks a a1 ss] by simp

text \<open>An array with the same occupancy and enough slots behind it is given the same slots.\<close>

lemma alloc_slots_same_slots:
  assumes "length oks = length oks'" "alloc_slots z oks p = Some (p1, ss)"
    "map occupied q = map occupied p @ replicate m False" "length p1 \<le> length p + m"
  shows "\<exists>q1. alloc_slots z oks' q = Some (q1, ss) \<and> length q1 = length q
      \<and> map occupied q1 = map occupied p1 @ replicate (length q - length p1) False"
  using assms
proof (induction oks oks' arbitrary: p q m ss rule: list_induct2)
  case Nil
  from Nil.prems(2) have "length q = length p + m" by (metis length_append length_map length_replicate)
  with Nil show ?case by simp
next
  case (Cons ok oks ok' oks')
  from Cons.prems(1) obtain p' s ss0 where
    st: "nft_array_slot_alloc z ok p = Some (p', s)" and
    rest: "alloc_slots z oks p' = Some (p1, ss0)" and ss: "ss = s # ss0"
    by (auto split: option.splits)
  have lq: "length q = length p + m"
    using Cons.prems(2) by (metis length_append length_map length_replicate)
  have mono: "length p' \<le> length p1" using rest by (rule alloc_slots_length_mono)
  show ?case
  proof (cases "first_index (\<lambda>e. \<not> occupied e) p")
    case (Some i)
    with st have p': "p' = p[i := NftElement True (payload (p ! i))]" "s = i"
      by (auto simp: nft_array_slot_alloc_def)
    from Some have i: "i < length p" by (rule first_index_less)
    have "first_index (\<lambda>e. \<not> occupied e) q = Some i"
      using Some by (simp add: first_free_of_occupancy Cons.prems(2) first_index_append_Some)
    then have sq: "nft_array_slot_alloc z ok' q = Some (q[i := NftElement True (payload (q ! i))], i)"
      by (simp add: nft_array_slot_alloc_def)
    let ?q' = "q[i := NftElement True (payload (q ! i))]"
    have oq: "map occupied ?q' = map occupied p' @ replicate m False"
      using i by (simp add: map_update Cons.prems(2) p' list_update_append1)
    have "length p1 \<le> length p' + m" using Cons.prems(3) by (simp add: p')
    from Cons.IH[OF rest oq this] obtain q1 where
      "alloc_slots z oks' ?q' = Some (q1, ss0)" "length q1 = length ?q'"
      "map occupied q1 = map occupied p1 @ replicate (length ?q' - length p1) False"
      by blast
    with sq show ?thesis by (simp add: ss p')
  next
    case None
    with st have ok: "ok" and p': "p' = (p @ replicate NFT_ARRAY_INC (NftElement False z))[length p := NftElement True z]"
      "s = length p"
      by (auto simp: nft_array_slot_alloc_def split: if_splits)
    have lp': "length p' = length p + 64" by (simp add: p' NFT_ARRAY_INC_def)
    with mono Cons.prems(3) have m: "64 \<le> m" by simp
    define m' where "m' = m - 64"
    have "replicate m False = replicate 64 False @ replicate m' False"
      using m by (simp add: m'_def flip: replicate_add)
    then have rm: "replicate m False = False # replicate 63 False @ replicate m' False"
      by (simp only: replicate_block append_Cons)
    have mm: "m = 64 + m'" using m by (simp add: m'_def)
    have np: "first_index Not (map occupied p) = None"
      using None by (simp add: first_free_of_occupancy)
    have "first_index (\<lambda>e. \<not> occupied e) q = Some (length p)"
      unfolding first_free_of_occupancy Cons.prems(2) rm first_index_append_None[OF np] by simp
    then have sq: "nft_array_slot_alloc z ok' q = Some (q[length p := NftElement True (payload (q ! length p))], length p)"
      by (simp add: nft_array_slot_alloc_def)
    let ?q' = "q[length p := NftElement True (payload (q ! length p))]"
    have "replicate NFT_ARRAY_INC (NftElement False z) = NftElement False z # replicate 63 (NftElement False z)"
      unfolding NFT_ARRAY_INC_def by (rule replicate_block)
    then have op': "map occupied p' = map occupied p @ True # replicate 63 False"
      by (simp add: p' map_update list_update_append)
    have "map occupied ?q' = (map occupied p @ False # replicate 63 False @ replicate m' False)[length p := True]"
      by (simp add: map_update Cons.prems(2) rm)
    also have "\<dots> = map occupied p @ True # replicate 63 False @ replicate m' False"
      by (simp add: list_update_append)
    finally have oq: "map occupied ?q' = map occupied p' @ replicate m' False"
      by (simp add: op')
    have "length p1 \<le> length p' + m'" using Cons.prems(3) by (simp add: lp' mm)
    from Cons.IH[OF rest oq this] obtain q1 where
      "alloc_slots z oks' ?q' = Some (q1, ss0)" "length q1 = length ?q'"
      "map occupied q1 = map occupied p1 @ replicate (length ?q' - length p1) False"
      by blast
    with sq show ?thesis by (simp add: ss p')
  qed
qed

lemma free_slot_count_pos:
  "0 < free_slot_count a \<Longrightarrow> \<exists>i. first_index (\<lambda>e. \<not> occupied e) a = Some i"
  using free_slot_count_0[of a] by (cases "first_index (\<lambda>e. \<not> occupied e) a") simp_all

lemma free_slot_count_taken:
  assumes "first_index (\<lambda>e. \<not> occupied e) a = Some i"
  shows "free_slot_count (a[i := NftElement True v]) + 1 = free_slot_count a"
proof -
  from assms have i: "i < length a" "\<not> occupied (a ! i)" by (simp_all add: first_index_Some)
  from filter_update_count[OF i(1), of "\<lambda>e. \<not> occupied e" "NftElement True v"] i(2)
  show ?thesis by (simp add: free_slot_count_def)
qed

text \<open>Allocations into an array with enough free slots.\<close>

lemma alloc_slots_room:
  assumes "length oks \<le> free_slot_count a"
  shows "\<exists>a1 ss. alloc_slots z oks a = Some (a1, ss) \<and> length a1 = length a"
  using assms
proof (induction oks arbitrary: a)
  case Nil
  then show ?case by simp
next
  case (Cons ok oks)
  then have "0 < free_slot_count a" by simp
  from free_slot_count_pos[OF this] obtain i where
    i: "first_index (\<lambda>e. \<not> occupied e) a = Some i" by blast
  let ?a' = "a[i := NftElement True (payload (a ! i))]"
  have st: "nft_array_slot_alloc z ok a = Some (?a', i)" using i by (rule slot_alloc_free)
  from free_slot_count_taken[OF i, of "payload (a ! i)"] Cons.prems
  have "length oks \<le> free_slot_count ?a'" by simp
  from Cons.IH[OF this] obtain a1 ss where
    "alloc_slots z oks ?a' = Some (a1, ss)" "length a1 = length ?a'" by blast
  with st show ?case by simp
qed

lemma free_slot_count_grown:
  assumes "first_index (\<lambda>e. \<not> occupied e) a = None"
  shows "free_slot_count ((a @ replicate NFT_ARRAY_INC (NftElement False z))[length a := NftElement True z]) = 63"
proof -
  from assms have "filter (\<lambda>e. \<not> occupied e) a = []"
    by (simp add: first_index_None filter_empty_conv)
  then show ?thesis
    by (simp add: free_slot_count_def NFT_ARRAY_INC_def replicate_block list_update_append)
qed

text \<open>At most 64 allocations grow the array by at most one block.\<close>

lemma alloc_slots_one_block:
  assumes "alloc_slots z oks a = Some (a1, ss)" "length oks \<le> 64"
  shows "length a1 \<le> length a + 64"
  using assms
proof (induction oks arbitrary: a ss)
  case Nil
  then show ?case by simp
next
  case (Cons ok oks)
  from Cons.prems(1) obtain a' s ss0 where
    st: "nft_array_slot_alloc z ok a = Some (a', s)" and
    rest: "alloc_slots z oks a' = Some (a1, ss0)"
    by (auto split: option.splits)
  from Cons.prems(2) have l: "length oks \<le> 63" by simp
  show ?case
  proof (cases "first_index (\<lambda>e. \<not> occupied e) a")
    case (Some i)
    with st have "length a' = length a" by (auto simp: nft_array_slot_alloc_def)
    with Cons.IH[OF rest] l show ?thesis by simp
  next
    case None
    with st have a': "a' = (a @ replicate NFT_ARRAY_INC (NftElement False z))[length a := NftElement True z]"
      by (auto simp: nft_array_slot_alloc_def split: if_splits)
    have "length oks \<le> free_slot_count a'" using l by (simp add: a' free_slot_count_grown[OF None])
    from alloc_slots_room[OF this, of z] rest have "length a1 = length a'" by auto
    then show ?thesis by (simp add: a' NFT_ARRAY_INC_def)
  qed
qed

text \<open>When the storage can grow, every allocation succeeds.\<close>

lemma alloc_slots_total:
  "\<exists>a1 ss. alloc_slots z (replicate n True) a = Some (a1, ss)"
proof (induction n arbitrary: a)
  case 0
  then show ?case by simp
next
  case (Suc n)
  from slot_alloc_ok[of True z a] obtain a' s where
    st: "nft_array_slot_alloc z True a = Some (a', s)" by blast
  from Suc[of a'] obtain a1 ss where "alloc_slots z (replicate n True) a' = Some (a1, ss)" by blast
  with st show ?case by simp
qed

text \<open>
  Claim C6, amended, on the slot array of section 4.1 of the specification, which holds
  the classes and, per class, the objects that obj.c registers. After \<open>N\<close>
  allocations that succeed and the release of the \<open>N\<close> slots they returned, in any
  order \<open>us\<close>, the occupancy of the array is the occupancy of before, followed by
  the free slots the array has grown by, and the next \<open>N\<close> allocations return the
  same \<open>N\<close> distinct slot indices without growing the array, also when the storage
  could not grow. An allocation fails only when no slot is free and the storage cannot
  grow; it grows the array only when no slot is free, and then by one block of 64 slots.
  At most 64 allocations grow the array by at most one block, and allocations for
  which enough slots are free do not grow it. When the storage can grow, every
  allocation succeeds. No sequence of allocations and releases shrinks the array.
\<close>

theorem C6_slot_reuse_and_growth:
  "(alloc_slots z oks a = Some (a1, ss) \<and> set us = set ss \<and> length oks' = length oks \<longrightarrow>
      length ss = length oks \<and> distinct ss
      \<and> map occupied (free_slots z a1 us) = map occupied a @ replicate (length a1 - length a) False
      \<and> (\<exists>a3. alloc_slots z oks' (free_slots z a1 us) = Some (a3, ss) \<and> length a3 = length a1))
   \<and> (nft_array_slot_alloc z ok b = None \<longleftrightarrow> free_slot_count b = 0 \<and> \<not> ok)
   \<and> (nft_array_slot_alloc z ok b = Some (b1, s) \<longrightarrow>
        length b1 = (if free_slot_count b = 0 then length b + 64 else length b))
   \<and> (alloc_slots z oks2 c = Some (c1, ts) \<and> length oks2 \<le> 64 \<longrightarrow> length c1 \<le> length c + 64)
   \<and> (length oks3 \<le> free_slot_count d \<longrightarrow>
        (\<exists>d1 vs. alloc_slots z oks3 d = Some (d1, vs) \<and> length d1 = length d))
   \<and> (\<exists>e1 ws. alloc_slots z (replicate n True) e = Some (e1, ws))
   \<and> length f \<le> length (run_slot_ops z ops f)"
proof -
  have 1: "length ss = length oks \<and> distinct ss
      \<and> map occupied (free_slots z a1 us) = map occupied a @ replicate (length a1 - length a) False
      \<and> (\<exists>a3. alloc_slots z oks' (free_slots z a1 us) = Some (a3, ss) \<and> length a3 = length a1)"
    if h: "alloc_slots z oks a = Some (a1, ss)" "set us = set ss" "length oks' = length oks"
  proof -
    note c = alloc_slots_char[OF h(1)]
    have o: "map occupied (free_slots z a1 us) = map occupied a @ replicate (length a1 - length a) False"
      using h(1,2) by (rule alloc_then_free_occupancy)
    have l: "length a1 \<le> length a + (length a1 - length a)" by simp
    from alloc_slots_same_slots[OF h(3)[symmetric] h(1) o l] obtain a3 where
      "alloc_slots z oks' (free_slots z a1 us) = Some (a3, ss)"
      "length a3 = length (free_slots z a1 us)"
      by blast
    with free_slots_char[of z a1 us] c o show ?thesis by auto
  qed
  have 2: "nft_array_slot_alloc z ok b = None \<longleftrightarrow> free_slot_count b = 0 \<and> \<not> ok"
    by (rule slot_alloc_None)
  have 3: "length b1 = (if free_slot_count b = 0 then length b + 64 else length b)"
    if "nft_array_slot_alloc z ok b = Some (b1, s)"
    using slot_alloc_length[OF that] by (simp add: NFT_ARRAY_INC_def)
  have 4: "length c1 \<le> length c + 64" if "alloc_slots z oks2 c = Some (c1, ts)" "length oks2 \<le> 64"
    using that by (rule alloc_slots_one_block)
  have 5: "\<exists>d1 vs. alloc_slots z oks3 d = Some (d1, vs) \<and> length d1 = length d"
    if "length oks3 \<le> free_slot_count d"
    using that by (rule alloc_slots_room)
  have 6: "\<exists>e1 ws. alloc_slots z (replicate n True) e = Some (e1, ws)"
    by (rule alloc_slots_total)
  have 7: "length f \<le> length (run_slot_ops z ops f)" by (rule run_slot_ops_length)
  from 1 2 3 4 5 6 7 show ?thesis by blast
qed

theorem C6_slot_reuse_and_growth_witness:
  "\<exists>a1 a3 b1 d1 vs.
      alloc_slots zeroed_obj [True, True] [] = Some (a1, [0, 1])
    \<and> length a1 = 64
    \<and> map occupied (free_slots zeroed_obj a1 [1, 0]) = replicate 64 False
    \<and> alloc_slots zeroed_obj [False, False] (free_slots zeroed_obj a1 [1, 0]) = Some (a3, [0, 1])
    \<and> length a3 = 64
    \<and> alloc_slots zeroed_obj [False, False, False] (free_slots zeroed_obj a1 [1, 0]) = Some (d1, vs)
    \<and> length d1 = 64
    \<and> nft_array_slot_alloc zeroed_obj True slots_full = Some (b1, 64)
    \<and> length b1 = 128
    \<and> 128 \<le> length (run_slot_ops zeroed_obj [Free 3, Alloc False, Free 64, Alloc True] b1)"
proof -
  define a1 where "a1 = fst (the (alloc_slots zeroed_obj [True, True] []))"
  define b1 where "b1 = fst (the (nft_array_slot_alloc zeroed_obj True slots_full))"
  let ?a2 = "free_slots zeroed_obj a1 [1, 0]"
  have h1: "alloc_slots zeroed_obj [True, True] [] = Some (a1, [0, 1])"
    unfolding a1_def by code_simp
  have h2: "set [1, 0 :: nat] = set [0, 1]" by auto
  have h3: "length [False, False] = length [True, True]" by simp
  have h4: "nft_array_slot_alloc zeroed_obj True slots_full = Some (b1, 64)"
    unfolding b1_def by code_simp
  have h5: "free_slot_count slots_full = 0" "length slots_full = 64" by code_simp+
  have h6: "length [True, True] \<le> (64::nat)" by simp
  have h7: "length [False, False, False] \<le> free_slot_count ?a2"
    unfolding a1_def by code_simp
  note t = C6_slot_reuse_and_growth[where z = zeroed_obj and oks = "[True, True]" and a = "[]"
      and ?a1.0 = a1 and ss = "[0, 1]" and us = "[1, 0]" and oks' = "[False, False]"
      and ok = True and b = slots_full and ?b1.0 = b1 and s = 64
      and ?oks2.0 = "[True, True]" and c = "[]" and ?c1.0 = a1 and ts = "[0, 1]"
      and ?oks3.0 = "[False, False, False]" and d = ?a2
      and f = b1 and ops = "[Free 3, Alloc False, Free 64, Alloc True]"]
  note t1 = t[THEN conjunct1]
  note t3 = t[THEN conjunct2, THEN conjunct2, THEN conjunct1]
  note t4 = t[THEN conjunct2, THEN conjunct2, THEN conjunct2, THEN conjunct1]
  note t5 = t[THEN conjunct2, THEN conjunct2, THEN conjunct2, THEN conjunct2, THEN conjunct1]
  note t7 = t[THEN conjunct2, THEN conjunct2, THEN conjunct2, THEN conjunct2, THEN conjunct2, THEN conjunct2]
  have pre1: "alloc_slots zeroed_obj [True, True] [] = Some (a1, [0, 1])
      \<and> set [1, 0 :: nat] = set [0, 1] \<and> length [False, False] = length [True, True]"
    using h1 h2 h3 by (intro conjI)
  note c1 = mp[OF t1 pre1]
  note r1 = c1[THEN conjunct2, THEN conjunct2, THEN conjunct1]
  note r2 = c1[THEN conjunct2, THEN conjunct2, THEN conjunct2]
  note r3 = mp[OF t3 h4]
  note r4 = mp[OF t4 conjI[OF h1 h6]]
  note r5 = mp[OF t5 h7]
  from r3 h5 have lb1: "length b1 = 128" by simp
  from r2 obtain a3 where a3: "alloc_slots zeroed_obj [False, False] ?a2 = Some (a3, [0, 1])"
    "length a3 = length a1" by blast
  from r5 obtain d1 vs where d1: "alloc_slots zeroed_obj [False, False, False] ?a2 = Some (d1, vs)"
    "length d1 = length ?a2" by blast
  have la1: "length a1 = 64" unfolding a1_def by code_simp
  have la2: "length ?a2 = 64" using arg_cong[OF r1, of length] la1 by simp
  from h1 la1 r1 a3 d1 la2 h4 lb1 t7 show ?thesis by simp
qed

text \<open>
  Claim C6 as stated says that registering fewer than 64 objects never grows the
  storage. The first allocation in a freshly initialised array grows it from 0 to 64
  slots, and one allocation in an array whose 64 slots are occupied grows it to 128
  slots.
\<close>

theorem C6_allocation_grows_counterexample:
  "nft_array_init True = Some ([] :: NftPrefsObj NftArray)
   \<and> map_option (length \<circ> fst) (nft_array_slot_alloc zeroed_obj True []) = Some 64
   \<and> length slots_full = 64 \<and> free_slot_count slots_full = 0
   \<and> map_option (length \<circ> fst) (nft_array_slot_alloc zeroed_obj True slots_full) = Some 128"
  by code_simp

end
